theory Spec2Isabelle
  imports Complex_Main "HOL-Library.Log_Nat" "HOL-Library.Signed_Division" "HOL-Library.AList"
begin

section \<open>The JavaScript values the program computes with\<close>

subsection \<open>Errors\<close>

text \<open>
  Every exception of the program is a value. \<open>TransportError\<close> is what \<open>fetchMoexData\<close>
  rethrows (a non-success HTTP status, a network failure or an undecodable body);
  \<open>RangeError\<close>, \<open>TypeError\<close> and \<open>SyntaxError\<close> are the exceptions of the language itself
  (\<open>BigInt\<close> of a Number that is no integer, of \<open>null\<close>, of text that is no integer;
  BigInt division by zero; a method call on \<open>undefined\<close>).
\<close>

datatype error = TransportError | RangeError | TypeError | SyntaxError

subsection \<open>Numbers\<close>

text \<open>
  A Number is an IEEE 754 double: a finite value (a rational, always one of the representable
  ones), an infinity or NaN. The two zeros are identified, as \<open>===\<close> identifies them; the
  program never divides by a zero, the one place where they differ.
\<close>

datatype number = Fin rat | PosInf | NegInf | NaN

text \<open>\<open>floorlog2 x\<close> is the exponent \<open>e\<close> with \<open>2^e \<le> |x| < 2^(e+1)\<close>, for \<open>x \<noteq> 0\<close>.\<close>

definition floorlog2 :: "rat \<Rightarrow> int" where
  "floorlog2 x =
     (let (p, q) = quotient_of \<bar>x\<bar>; e = bitlen p - bitlen q
      in if 2 powi e \<le> \<bar>x\<bar> then e else e - 1)"

definition roundTiesToEven :: "rat \<Rightarrow> int" where
  "roundTiesToEven x =
     (let f = \<lfloor>x\<rfloor>; r = x - of_int f
      in if r < 1 / 2 then f
         else if 1 / 2 < r then f + 1
         else if even f then f else f + 1)"

text \<open>
  The unit in the last place of the doubles around \<open>x\<close>: 53 significant bits, and no exponent
  below that of the subnormals.
\<close>

definition ulp :: "rat \<Rightarrow> rat" where
  "ulp x = 2 powi (max (floorlog2 x - 52) (- 1074))"

text \<open>
  \<open>toDouble x\<close> is the double nearest to the exact value \<open>x\<close>, ties to the even significand,
  overflowing to an infinity: the rounding every arithmetic operation on Numbers ends with.
\<close>

definition toDouble :: "rat \<Rightarrow> number" where
  "toDouble x =
     (if x = 0 then Fin 0
      else let r = of_int (roundTiesToEven (x / ulp x)) * ulp x
           in if 2 ^ 1024 \<le> r then PosInf
              else if r \<le> - (2 ^ 1024) then NegInf
              else Fin r)"

text \<open>The operator \<open>*\<close> on two Numbers.\<close>

fun js_mul :: "number \<Rightarrow> number \<Rightarrow> number" where
  "js_mul (Fin x) (Fin y) = toDouble (x * y)"
| "js_mul NaN _ = NaN"
| "js_mul _ NaN = NaN"
| "js_mul (Fin x) PosInf = (if x = 0 then NaN else if 0 < x then PosInf else NegInf)"
| "js_mul (Fin x) NegInf = (if x = 0 then NaN else if 0 < x then NegInf else PosInf)"
| "js_mul PosInf (Fin y) = (if y = 0 then NaN else if 0 < y then PosInf else NegInf)"
| "js_mul NegInf (Fin y) = (if y = 0 then NaN else if 0 < y then NegInf else PosInf)"
| "js_mul PosInf PosInf = PosInf"
| "js_mul PosInf NegInf = NegInf"
| "js_mul NegInf PosInf = NegInf"
| "js_mul NegInf NegInf = PosInf"

text \<open>
  The operator \<open>/\<close> with a positive literal on the right (\<open>/ 100\<close>, \<open>/ 10\<close>, \<open>/ 1e6\<close>: the
  only divisions of Numbers in the program). The literal is given by its exact value.
\<close>

fun js_div_lit :: "number \<Rightarrow> rat \<Rightarrow> number" where
  "js_div_lit (Fin x) c = toDouble (x / c)"
| "js_div_lit PosInf c = PosInf"
| "js_div_lit NegInf c = NegInf"
| "js_div_lit NaN c = NaN"

text \<open>
  \<open>Math.round\<close>: the nearest integer, a tie going to the one nearer \<open>+\<infinity>\<close>. The result is
  exact: a double below \<open>2^52\<close> in magnitude rounds to an integer no larger than \<open>2^52\<close>, and a
  larger double is an integer already.
\<close>

fun Math_round :: "number \<Rightarrow> number" where
  "Math_round (Fin x) = Fin (of_int \<lfloor>x + 1 / 2\<rfloor>)"
| "Math_round n = n"

text \<open>\<open>Math.trunc\<close>: the integer part, toward zero.\<close>

fun Math_trunc :: "number \<Rightarrow> number" where
  "Math_trunc (Fin x) = Fin (of_int (if 0 \<le> x then \<lfloor>x\<rfloor> else \<lceil>x\<rceil>))"
| "Math_trunc n = n"

subsection \<open>BigInts\<close>

text \<open>
  A BigInt is an unbounded integer. Its division truncates toward zero and throws a
  \<open>RangeError\<close> on a zero divisor. \<open>Number(q)\<close> of a BigInt rounds it to the nearest double.
\<close>

definition bigint_div :: "int \<Rightarrow> int \<Rightarrow> error + int" where
  "bigint_div a b = (if b = 0 then Inl RangeError else Inr (a sdiv b))"

definition Number_of_BigInt :: "int \<Rightarrow> number" where
  "Number_of_BigInt q = toDouble (of_int q)"

subsection \<open>Numeric text\<close>

text \<open>
  A string is a list of code units below 256. \<open>StringToNumber\<close> and \<open>StringToBigInt\<close> are
  the conversions of the language standard. Both trim white space (of the code units below
  256: tab, line feed, vertical tab, form feed, carriage return, space and the no-break
  space) and read the empty string as 0. As a BigInt, what is left is a decimal integer with
  an optional sign, or a hexadecimal, octal or binary integer after \<open>0x\<close>, \<open>0o\<close>, \<open>0b\<close>; as a
  Number it may also be \<open>Infinity\<close> or a decimal with a fraction and an exponent, and the
  value is rounded to the nearest double. Anything else is no BigInt at all, and NaN.
\<close>

definition isStrWhiteSpaceChar :: "char \<Rightarrow> bool" where
  "isStrWhiteSpaceChar c =
     (c = CHR 0x09 \<or> c = CHR 0x0A \<or> c = CHR 0x0B \<or> c = CHR 0x0C \<or> c = CHR 0x0D \<or>
      c = CHR 0x20 \<or> c = CHR 0xA0)"

definition trimString :: "string \<Rightarrow> string" where
  "trimString s = rev (dropWhile isStrWhiteSpaceChar (rev (dropWhile isStrWhiteSpaceChar s)))"

text \<open>The value of a digit, up to the hexadecimal ones in either case.\<close>

definition digitOf :: "char \<Rightarrow> nat option" where
  "digitOf c =
     (let n = (of_char c :: nat)
      in if 48 \<le> n \<and> n \<le> 57 then Some (n - 48)
         else if 97 \<le> n \<and> n \<le> 102 then Some (n - 87)
         else if 65 \<le> n \<and> n \<le> 70 then Some (n - 55)
         else None)"

fun digitsIn :: "nat \<Rightarrow> string \<Rightarrow> nat \<Rightarrow> nat option" where
  "digitsIn b [] acc = Some acc"
| "digitsIn b (c # cs) acc =
     (case digitOf c of
        None \<Rightarrow> None
      | Some d \<Rightarrow> if d < b then digitsIn b cs (acc * b + d) else None)"

text \<open>One digit or more in the base \<open>b\<close>.\<close>

definition numeralIn :: "nat \<Rightarrow> string \<Rightarrow> nat option" where
  "numeralIn b s = (if s = [] then None else digitsIn b s 0)"

text \<open>
  A text that starts like a hexadecimal, octal or binary integer is one, or is not numeric
  (\<open>Some None\<close>); \<open>None\<close> is a text that does not start like one.
\<close>

fun nonDecimalIntegerLiteral :: "string \<Rightarrow> nat option option" where
  "nonDecimalIntegerLiteral (c0 # c1 # ds) =
     (if c0 \<noteq> CHR ''0'' then None
      else if c1 = CHR ''x'' \<or> c1 = CHR ''X'' then Some (numeralIn 16 ds)
      else if c1 = CHR ''o'' \<or> c1 = CHR ''O'' then Some (numeralIn 8 ds)
      else if c1 = CHR ''b'' \<or> c1 = CHR ''B'' then Some (numeralIn 2 ds)
      else None)"
| "nonDecimalIntegerLiteral s = None"

fun signedInteger :: "string \<Rightarrow> int option" where
  "signedInteger [] = None"
| "signedInteger (c # ds) =
     (if c = CHR ''-'' then map_option (\<lambda>n. - int n) (numeralIn 10 ds)
      else if c = CHR ''+'' then map_option int (numeralIn 10 ds)
      else map_option int (numeralIn 10 (c # ds)))"

definition StringToBigInt :: "string \<Rightarrow> int option" where
  "StringToBigInt str =
     (let s = trimString str
      in if s = [] then Some 0
         else case nonDecimalIntegerLiteral s of
                Some r \<Rightarrow> map_option int r
              | None \<Rightarrow> signedInteger s)"

text \<open>
  A decimal without its sign: digits with an optional fraction, or a fraction alone, and an
  optional exponent.
\<close>

definition unsignedDecimalLiteral :: "string \<Rightarrow> number" where
  "unsignedDecimalLiteral s =
     (if s = ''Infinity'' then PosInf
      else
        let mantissa = takeWhile (\<lambda>c. c \<noteq> CHR ''e'' \<and> c \<noteq> CHR ''E'') s;
            exponentPart = dropWhile (\<lambda>c. c \<noteq> CHR ''e'' \<and> c \<noteq> CHR ''E'') s;
            integerDigits = takeWhile (\<lambda>c. c \<noteq> CHR ''.'') mantissa;
            fractionDigits = tl (dropWhile (\<lambda>c. c \<noteq> CHR ''.'') mantissa);
            exponent = (if exponentPart = [] then Some 0 else signedInteger (tl exponentPart))
        in if integerDigits = [] \<and> fractionDigits = [] then NaN
           else
             case (digitsIn 10 integerDigits 0, digitsIn 10 fractionDigits 0, exponent) of
               (Some i, Some f, Some e) \<Rightarrow>
                 toDouble ((of_nat i + of_nat f / 10 ^ length fractionDigits) * 10 powi e)
             | _ \<Rightarrow> NaN)"

fun js_neg :: "number \<Rightarrow> number" where
  "js_neg (Fin x) = Fin (- x)"
| "js_neg PosInf = NegInf"
| "js_neg NegInf = PosInf"
| "js_neg NaN = NaN"

definition StringToNumber :: "string \<Rightarrow> number" where
  "StringToNumber str =
     (let s = trimString str
      in if s = [] then Fin 0
         else case nonDecimalIntegerLiteral s of
                Some r \<Rightarrow> (case r of None \<Rightarrow> NaN | Some n \<Rightarrow> toDouble (of_nat n))
              | None \<Rightarrow>
                  if hd s = CHR ''-'' then js_neg (unsignedDecimalLiteral (tl s))
                  else if hd s = CHR ''+'' then unsignedDecimalLiteral (tl s)
                  else unsignedDecimalLiteral s)"

subsection \<open>Cells of a parsed JSON table\<close>

text \<open>
  A cell of a row is a JSON scalar: text, a Number, a Boolean or \<open>null\<close>; reading a row past
  its end gives \<open>undefined\<close>. \<open>BigInt\<close> of a cell throws for a Number that is not an integer,
  for text that is not an integer, for \<open>null\<close> and for \<open>undefined\<close>; \<open>ToNumber\<close> is the
  conversion that the operator \<open>*\<close> applies to its operands.
\<close>

datatype cell = Txt string | Num number | Bool bool | Null | Undefined

definition row_get :: "cell list \<Rightarrow> nat \<Rightarrow> cell" where
  "row_get r i = (if i < length r then r ! i else Undefined)"

fun BigInt :: "cell \<Rightarrow> error + int" where
  "BigInt (Num (Fin x)) = (if x = of_int \<lfloor>x\<rfloor> then Inr \<lfloor>x\<rfloor> else Inl RangeError)"
| "BigInt (Num _) = Inl RangeError"
| "BigInt (Txt s) = (case StringToBigInt s of None \<Rightarrow> Inl SyntaxError | Some v \<Rightarrow> Inr v)"
| "BigInt (Bool b) = Inr (if b then 1 else 0)"
| "BigInt Null = Inl TypeError"
| "BigInt Undefined = Inl TypeError"

fun ToNumber :: "cell \<Rightarrow> number" where
  "ToNumber (Num n) = n"
| "ToNumber (Txt s) = StringToNumber s"
| "ToNumber (Bool b) = Fin (if b then 1 else 0)"
| "ToNumber Null = Fin 0"
| "ToNumber Undefined = NaN"

text \<open>\<open>columns.indexOf(name)\<close>: the first position of the name, or \<open>-1\<close>.\<close>

fun indexOf :: "'a list \<Rightarrow> 'a \<Rightarrow> int" where
  "indexOf [] x = - 1"
| "indexOf (y # ys) x = (if y = x then 0 else let i = indexOf ys x in if i = - 1 then - 1 else i + 1)"

subsection \<open>Strings of integers\<close>

function digits :: "nat \<Rightarrow> string" where
  "digits n = (if n < 10 then [char_of (48 + n)] else digits (n div 10) @ [char_of (48 + n mod 10)])"
  by pat_completeness auto
termination
  by (relation "measure (\<lambda>n. n)") auto

declare digits.simps [simp del]

text \<open>\<open>String(i)\<close>, and \<open>${i}\<close> in a template, of an integer Number.\<close>

definition String_of_int :: "int \<Rightarrow> string" where
  "String_of_int i = (if i < 0 then CHR ''-'' # digits (nat (- i)) else digits (nat i))"

text \<open>\<open>s.padStart(2, '0')\<close>.\<close>

definition padStart2 :: "string \<Rightarrow> string" where
  "padStart2 s = replicate (2 - length s) CHR ''0'' @ s"

subsection \<open>Dates\<close>

text \<open>
  The calendar of the language standard: days are counted from 1 January 1970 (day 0) on the
  proleptic Gregorian calendar, and the fields of a day follow the standard's \<open>DayFromYear\<close>,
  \<open>YearFromTime\<close>, \<open>DayWithinYear\<close>, \<open>MonthFromTime\<close>, \<open>DateFromTime\<close> and \<open>WeekDay\<close>.
\<close>

definition daysInYear :: "int \<Rightarrow> int" where
  "daysInYear y =
     (if y mod 4 \<noteq> 0 then 365 else if y mod 100 \<noteq> 0 then 366
      else if y mod 400 \<noteq> 0 then 365 else 366)"

definition dayFromYear :: "int \<Rightarrow> int" where
  "dayFromYear y =
     365 * (y - 1970) + (y - 1969) div 4 - (y - 1901) div 100 + (y - 1601) div 400"

text \<open>
  The year of the day \<open>n\<close>, the largest year whose first day is not after \<open>n\<close>: the estimate
  from the mean length of a year is off by at most one (\<open>yearFromDay_bounds\<close> below).
\<close>

definition yearFromDay :: "int \<Rightarrow> int" where
  "yearFromDay n =
     (let c = 1970 + (n * 400) div 146097
      in if dayFromYear (c + 1) \<le> n then c + 1
         else if n < dayFromYear c then c - 1
         else c)"

definition dayWithinYear :: "int \<Rightarrow> int" where
  "dayWithinYear n = n - dayFromYear (yearFromDay n)"

definition inLeapYear :: "int \<Rightarrow> int" where
  "inLeapYear n = (if daysInYear (yearFromDay n) = 366 then 1 else 0)"

text \<open>Months count from 0 (January).\<close>

definition monthFromDay :: "int \<Rightarrow> int" where
  "monthFromDay n =
     (let d = dayWithinYear n; l = inLeapYear n
      in if d < 31 then 0
         else if d < 59 + l then 1
         else if d < 90 + l then 2
         else if d < 120 + l then 3
         else if d < 151 + l then 4
         else if d < 181 + l then 5
         else if d < 212 + l then 6
         else if d < 243 + l then 7
         else if d < 273 + l then 8
         else if d < 304 + l then 9
         else if d < 334 + l then 10
         else 11)"

definition dateFromDay :: "int \<Rightarrow> int" where
  "dateFromDay n =
     (let d = dayWithinYear n; l = inLeapYear n; m = monthFromDay n
      in if m = 0 then d + 1
         else if m = 1 then d - 30
         else if m = 2 then d - 58 - l
         else if m = 3 then d - 89 - l
         else if m = 4 then d - 119 - l
         else if m = 5 then d - 150 - l
         else if m = 6 then d - 180 - l
         else if m = 7 then d - 211 - l
         else if m = 8 then d - 242 - l
         else if m = 9 then d - 272 - l
         else if m = 10 then d - 303 - l
         else d - 333 - l)"

text \<open>The day of the week: 0 is Sunday, 6 is Saturday; 1 January 1970 was a Thursday.\<close>

definition weekDay :: "int \<Rightarrow> int" where
  "weekDay n = (n + 4) mod 7"

text \<open>
  \<open>MakeDay\<close>: the number of the day \<open>date\<close> of a month of a year, counted on past either end
  of the month (day 0 is the last day of the month before). It is computed from the first day
  of the year and the days of the year before the month, as the engines compute it.
\<close>

definition daysBeforeMonth :: "int \<Rightarrow> int \<Rightarrow> int" where
  "daysBeforeMonth m l =
     (if m = 0 then 0
      else if m = 1 then 31
      else if m = 2 then 59 + l
      else if m = 3 then 90 + l
      else if m = 4 then 120 + l
      else if m = 5 then 151 + l
      else if m = 6 then 181 + l
      else if m = 7 then 212 + l
      else if m = 8 then 243 + l
      else if m = 9 then 273 + l
      else if m = 10 then 304 + l
      else 334 + l)"

definition MakeDay :: "int \<Rightarrow> int \<Rightarrow> int \<Rightarrow> int" where
  "MakeDay year month date =
     (let ym = year + month div 12; mn = month mod 12
      in dayFromYear ym + daysBeforeMonth mn (if daysInYear ym = 366 then 1 else 0) + date - 1)"

text \<open>
  Times are milliseconds. A time value counts them from the start of 1 January 1970 UTC;
  \<open>TimeClip\<close> turns a time outside the range of a \<open>Date\<close>, 100\,000\,000 days either way,
  into NaN (\<open>None\<close>).
\<close>

definition msPerDay :: int where
  "msPerDay = 86400000"

definition Day :: "int \<Rightarrow> int" where
  "Day t = t div msPerDay"

definition TimeWithinDay :: "int \<Rightarrow> int" where
  "TimeWithinDay t = t mod msPerDay"

definition MakeDate :: "int \<Rightarrow> int \<Rightarrow> int" where
  "MakeDate day time = day * msPerDay + time"

definition TimeClip :: "int \<Rightarrow> int option" where
  "TimeClip t = (if \<bar>t\<bar> > 8640000000000000 then None else Some t)"

text \<open>
  The time zone of the host is the function \<open>LocalTZA\<close> of the standard: \<open>z t True\<close> is the
  offset of local time from UTC at the instant \<open>t\<close>, and \<open>z t False\<close> is the offset by which
  the local time \<open>t\<close> is read (the offset before the change, for a local time that a change
  of the clock skips or repeats).
\<close>

type_synonym zone = "int \<Rightarrow> bool \<Rightarrow> int"

definition LocalTime :: "zone \<Rightarrow> int \<Rightarrow> int" where
  "LocalTime z t = t + z t True"

definition UTC :: "zone \<Rightarrow> int \<Rightarrow> int" where
  "UTC z t = t - z t False"

text \<open>
  A \<open>Date\<close> holds a time value, or NaN when it is an Invalid Date. Its methods read the
  fields of its local time, and give NaN for an Invalid Date.
\<close>

type_synonym jsdate = "int option"

definition getFullYear :: "zone \<Rightarrow> jsdate \<Rightarrow> int option" where
  "getFullYear z date = map_option (\<lambda>t. yearFromDay (Day (LocalTime z t))) date"

definition getMonth :: "zone \<Rightarrow> jsdate \<Rightarrow> int option" where
  "getMonth z date = map_option (\<lambda>t. monthFromDay (Day (LocalTime z t))) date"

definition getDate :: "zone \<Rightarrow> jsdate \<Rightarrow> int option" where
  "getDate z date = map_option (\<lambda>t. dateFromDay (Day (LocalTime z t))) date"

definition getDay :: "zone \<Rightarrow> jsdate \<Rightarrow> int option" where
  "getDay z date = map_option (\<lambda>t. weekDay (Day (LocalTime z t))) date"

text \<open>
  \<open>date.setDate(dayValue)\<close>: the day \<open>dayValue\<close> of the month of the local time of \<open>date\<close>,
  at the same time within the day, read as a local time and clipped. The value is the new
  state of \<open>date\<close>; a NaN on either side leaves an Invalid Date.
\<close>

definition setDate :: "zone \<Rightarrow> jsdate \<Rightarrow> int option \<Rightarrow> jsdate" where
  "setDate z date dayValue =
     (case date of
        None \<Rightarrow> None
      | Some tv \<Rightarrow>
          (case dayValue of
             None \<Rightarrow> None
           | Some dt \<Rightarrow>
               let t = LocalTime z tv;
                   newDate = MakeDate (MakeDay (yearFromDay (Day t)) (monthFromDay (Day t)) dt)
                               (TimeWithinDay t)
               in TimeClip (UTC z newDate)))"

text \<open>\<open>String(x)\<close>, and \<open>${x}\<close> in a template, of a Number that is an integer or NaN.\<close>

definition String_of_number :: "int option \<Rightarrow> string" where
  "String_of_number x = (case x of None \<Rightarrow> ''NaN'' | Some i \<Rightarrow> String_of_int i)"

section \<open>The program\<close>

subsection \<open>\<open>formatDate\<close>\<close>

text \<open>The program runs in the time zone \<open>z\<close>.\<close>

definition formatDate :: "zone \<Rightarrow> jsdate \<Rightarrow> string" where
  "formatDate z date =
     (let year = getFullYear z date;
          month = padStart2 (String_of_number (map_option (\<lambda>m. m + 1) (getMonth z date)));
          day = padStart2 (String_of_number (getDate z date))
      in String_of_number year @ ''-'' @ month @ ''-'' @ day)"

subsection \<open>\<open>workDaysGenerator\<close>\<close>

text \<open>
  The state of the generator is the counter \<open>i\<close> and the date \<open>current\<close>. \<open>workDaysNext\<close> runs
  its loop up to the next \<open>yield\<close>: the value is the string yielded and the state to resume
  from, or \<open>None\<close> in their place when the generator is done. \<open>date\<close> is a copy of \<open>current\<close>
  set to the day before; \<open>continue\<close> is the recursive call. The loop need not come to a
  \<open>yield\<close>: the value of \<open>workDaysNext\<close> is \<open>None\<close> when it does not.
\<close>

partial_function (option) workDaysNext ::
    "zone \<Rightarrow> int \<Rightarrow> int \<Rightarrow> jsdate \<Rightarrow> ((string \<times> int \<times> jsdate) option) option" where
  "workDaysNext z i daysBack current =
     (if i \<le> daysBack then
        let date = setDate z current (map_option (\<lambda>d. d - 1) (getDate z current));
            dayOfWeek = getDay z date
        in if dayOfWeek = Some 0 \<or> dayOfWeek = Some 6 then workDaysNext z i daysBack date
           else Some (Some (formatDate z date, i + 1, date))
      else Some None)"

declare workDaysNext.simps [code]

text \<open>
  All that the generator yields from a state on, in order; \<open>None\<close> when it never comes to
  its end.
\<close>

partial_function (option) workDaysFrom ::
    "zone \<Rightarrow> int \<Rightarrow> int \<Rightarrow> jsdate \<Rightarrow> string list option" where
  "workDaysFrom z i daysBack current =
     (case workDaysNext z i daysBack current of
        None \<Rightarrow> None
      | Some None \<Rightarrow> Some []
      | Some (Some (s, i', current')) \<Rightarrow>
          Option.bind (workDaysFrom z i' daysBack current') (\<lambda>rest. Some (s # rest)))"

declare workDaysFrom.simps [code]

definition workDaysGenerator :: "zone \<Rightarrow> int \<Rightarrow> jsdate \<Rightarrow> string list option" where
  "workDaysGenerator z daysBack startDate = workDaysFrom z 0 daysBack startDate"

subsection \<open>\<open>divideBigInt\<close>\<close>

definition divideBigInt :: "int \<Rightarrow> int \<Rightarrow> error + number" where
  "divideBigInt a b =
     (case bigint_div (a * 100) b of
        Inl e \<Rightarrow> Inl e
      | Inr q \<Rightarrow>
          let result = js_div_lit (Number_of_BigInt q) 100
          in Inr (js_div_lit (Math_round (js_mul result (Fin 10))) 10))"

subsection \<open>\<open>fetchMoexData\<close>\<close>

text \<open>
  A table of the decoded response: its column names and its rows. The cells of the cursor
  table are integer counters, small enough for \<open>+\<close> and \<open>>=\<close> on them to be exact.
\<close>

record 'a table =
  columns :: "string list"
  data :: "'a list list"

record response =
  history :: "cell table"
  history_cursor :: "int table"

text \<open>
  The remote endpoint answers the \<open>n\<close>-th request of the run, for a date and an offset, with
  a decoded body or a failure. \<open>fetchMoexData\<close> logs a failure and throws it again; the number
  of requests issued so far is threaded through the program.
\<close>

type_synonym server = "nat \<Rightarrow> string \<Rightarrow> int \<Rightarrow> error + response"

definition fetchMoexData :: "server \<Rightarrow> nat \<Rightarrow> string \<Rightarrow> int \<Rightarrow> (error + response) \<times> nat" where
  "fetchMoexData srv n date start = (srv n date start, Suc n)"

subsection \<open>\<open>loadData\<close>\<close>

record stock =
  volume :: int
  turnover :: number

text \<open>
  A \<open>Map\<close> is a list of key-value pairs in insertion order; \<open>set\<close> is \<^const>\<open>AList.update\<close>
  (a present key keeps its place), \<open>has\<close> and \<open>get\<close> are \<^const>\<open>map_of\<close>.
\<close>

type_synonym daymap = "(cell \<times> stock) list"

type_synonym dataset = "(string \<times> daymap) list"

text \<open>
  The loop over the rows of a page. An exception of \<open>BigInt\<close> leaves the loop with the rows
  before it already stored.
\<close>

fun mergeRows :: "cell list list \<Rightarrow> nat \<Rightarrow> nat \<Rightarrow> nat \<Rightarrow> daymap \<Rightarrow> daymap \<times> error option" where
  "mergeRows [] idxName idxVol idxClose imoexDay = (imoexDay, None)"
| "mergeRows (r # rs) idxName idxVol idxClose imoexDay =
     (case BigInt (row_get r idxVol) of
        Inl e \<Rightarrow> (imoexDay, Some e)
      | Inr v \<Rightarrow>
          mergeRows rs idxName idxVol idxClose
            (AList.update (row_get r idxName)
               \<lparr>volume = v,
                turnover = js_mul (ToNumber (row_get r idxVol)) (ToNumber (row_get r idxClose))\<rparr>
               imoexDay))"

text \<open>
  A cell of the cursor row; past the end of the row it is \<open>undefined\<close> (\<open>None\<close>), which
  makes a sum NaN and a comparison false.
\<close>

definition cursor_get :: "int list \<Rightarrow> nat \<Rightarrow> int option" where
  "cursor_get r i = (if i < length r then Some (r ! i) else None)"

text \<open>
  One turn of the \<open>while (page >= 0)\<close> loop, from a page offset that is a number at least 0.
  It either leaves \<open>loadData\<close> by \<open>return;\<close> or goes round the loop again with a new value of
  \<open>page\<close> (\<open>None\<close> is NaN). The \<open>catch\<close> clause reports the exception and nothing else: the
  loop goes on with \<open>page\<close> as it was.
\<close>

datatype step = Return_undefined | Continue "int option" daymap

definition loadPage :: "server \<Rightarrow> nat \<Rightarrow> string \<Rightarrow> int \<Rightarrow> daymap \<Rightarrow> step \<times> nat" where
  "loadPage srv n date page imoexDay =
     (case fetchMoexData srv n date page of
        (Inl e, n') \<Rightarrow> (Continue (Some page) imoexDay, n')
      | (Inr a, n') \<Rightarrow>
          let cols = columns (history a);
              idxName = indexOf cols ''SECID'';
              idxVol = indexOf cols ''VOLUME'';
              idxDate = indexOf cols ''TRADEDATE'';
              idxClose = indexOf cols ''CLOSE''
          in if idxName = - 1 \<or> idxVol = - 1 \<or> idxDate = - 1 \<or> idxClose = - 1
             then (Return_undefined, n')
             else
               case mergeRows (data (history a)) (nat idxName) (nat idxVol) (nat idxClose) imoexDay of
                 (imoexDay', Some e) \<Rightarrow> (Continue (Some page) imoexDay', n')
               | (imoexDay', None) \<Rightarrow>
                   let cursor = history_cursor a;
                       cursorColumns = columns cursor;
                       idxPageIndex = indexOf cursorColumns ''INDEX'';
                       idxPageTotal = indexOf cursorColumns ''TOTAL'';
                       idxPageSize = indexOf cursorColumns ''PAGESIZE''
                   in if idxPageIndex = - 1 \<or> idxPageTotal = - 1 \<or> idxPageSize = - 1
                      then (Return_undefined, n')
                      else
                        case data cursor of
                          [] \<Rightarrow> (Continue (Some page) imoexDay', n')
                        | pageData # _ \<Rightarrow>
                            let pageIndex = cursor_get pageData (nat idxPageIndex);
                                pageTotal = cursor_get pageData (nat idxPageTotal);
                                pageSize = cursor_get pageData (nat idxPageSize)
                            in if (case (pageIndex, pageSize, pageTotal) of
                                     (Some i, Some s, Some t) \<Rightarrow> i + s \<ge> t
                                   | _ \<Rightarrow> False)
                               then (Continue (Some (- 1)) imoexDay', n')
                               else (Continue (map_option (\<lambda>s. page + s) pageSize) imoexDay', n'))"

text \<open>
  The \<open>while (page >= 0)\<close> loop for one date. It need not end: the value is \<open>None\<close> when it
  does not. Otherwise it is the day's map, or \<open>None\<close> in its place when \<open>loadData\<close> returned
  from inside the loop, and the number of requests issued.
\<close>

partial_function (option) loadDay ::
    "server \<Rightarrow> string \<Rightarrow> int option \<Rightarrow> daymap \<Rightarrow> nat \<Rightarrow> (daymap option \<times> nat) option" where
  "loadDay srv date page imoexDay n =
     (case page of
        None \<Rightarrow> Some (Some imoexDay, n)
      | Some p \<Rightarrow>
          if p \<ge> 0 then
            (case loadPage srv n date p imoexDay of
               (Return_undefined, n') \<Rightarrow> Some (None, n')
             | (Continue page' imoexDay', n') \<Rightarrow> loadDay srv date page' imoexDay' n')
          else Some (Some imoexDay, n))"

text \<open>
  The \<open>for (const date of dates)\<close> loop, which takes the dates from the generator one at a
  time. The program stores the map of the day under its date before it fills it; the model
  stores it filled, which is the same \<open>Map\<close> in the end. The value is \<open>None\<close> when the loop
  never ends.
\<close>

partial_function (option) loadDates ::
    "zone \<Rightarrow> server \<Rightarrow> int \<Rightarrow> int \<Rightarrow> jsdate \<Rightarrow> dataset \<Rightarrow> nat \<Rightarrow> (dataset option \<times> nat) option" where
  "loadDates z srv i daysBack current imoexData n =
     (case workDaysNext z i daysBack current of
        None \<Rightarrow> None
      | Some None \<Rightarrow> Some (Some imoexData, n)
      | Some (Some (date, i', current')) \<Rightarrow>
          (case loadDay srv date (Some 0) [] n of
             None \<Rightarrow> None
           | Some (None, n') \<Rightarrow> Some (None, n')
           | Some (Some imoexDay, n') \<Rightarrow>
               loadDates z srv i' daysBack current' (AList.update date imoexDay imoexData) n'))"

text \<open>
  \<open>loadData\<close>, called at the instant \<open>now\<close> (the value of \<open>new Date()\<close>) with \<open>n\<close> requests
  issued before it. The value is \<open>None\<close> when it never returns; a returned \<open>None\<close> in place
  of the dataset is \<open>undefined\<close>.
\<close>

definition loadData :: "zone \<Rightarrow> server \<Rightarrow> int \<Rightarrow> int \<Rightarrow> nat \<Rightarrow> (dataset option \<times> nat) option" where
  "loadData z srv daysBack now n = loadDates z srv 0 daysBack (Some now) [] n"

subsection \<open>\<open>computeAverageVolume\<close>\<close>

record tally =
  totalVolume :: int
  count :: nat

record avgData = tally +
  average :: int

type_synonym averages = "(cell \<times> avgData) list"

text \<open>
  The body of the inner loop: the entry of the security is created at its first record, and
  \<open>get\<close> then finds it (the case \<open>None\<close> of the lookup is never taken, see \<open>tallyStock_eq\<close>).
\<close>

fun tallyStock :: "cell \<times> stock \<Rightarrow> (cell \<times> tally) list \<Rightarrow> (cell \<times> tally) list" where
  "tallyStock (secId, stockData) averageVolume =
     (let averageVolume' =
            (if map_of averageVolume secId = None
             then AList.update secId \<lparr>totalVolume = 0, count = 0\<rparr> averageVolume
             else averageVolume)
      in case map_of averageVolume' secId of
           None \<Rightarrow> averageVolume'
         | Some current \<Rightarrow>
             AList.update secId
               \<lparr>totalVolume = totalVolume current + volume stockData, count = count current + 1\<rparr>
               averageVolume')"

text \<open>The second loop: \<open>data.average = data.totalVolume / BigInt(data.count)\<close>.\<close>

fun setAverages :: "(cell \<times> tally) list \<Rightarrow> error + averages" where
  "setAverages [] = Inr []"
| "setAverages ((secId, d) # rest) =
     (case bigint_div (totalVolume d) (int (count d)) of
        Inl e \<Rightarrow> Inl e
      | Inr a \<Rightarrow>
          (case setAverages rest of
             Inl e \<Rightarrow> Inl e
           | Inr rest' \<Rightarrow>
               Inr ((secId, \<lparr>totalVolume = totalVolume d, count = count d, average = a\<rparr>) # rest')))"

definition computeAverageVolume :: "dataset \<Rightarrow> error + averages" where
  "computeAverageVolume imoexData =
     setAverages (fold (\<lambda>(date, dayData). fold tallyStock dayData) imoexData [])"

subsection \<open>\<open>computeHotStocks\<close>\<close>

record hotStock =
  secId :: cell
  ratio :: number
  turnoverMln :: number

type_synonym hotStocks = "(string \<times> hotStock list) list"

text \<open>
  The body of the inner loop; \<open>continue\<close> leaves the map as it is. \<open>push\<close> on the array
  that \<open>get\<close> returns appends the entry (the array is there: it has just been created if
  it was not).
\<close>

definition hotStockStep :: "averages \<Rightarrow> string \<Rightarrow> cell \<times> stock \<Rightarrow> hotStocks \<Rightarrow> error + hotStocks" where
  "hotStockStep averageVolume date entry hotStocks =
     (case entry of (sec, stockData) \<Rightarrow>
        case map_of averageVolume sec of
          None \<Rightarrow> Inr hotStocks
        | Some avg \<Rightarrow>
            if average avg = 0 then Inr hotStocks
            else
              case divideBigInt (volume stockData) (average avg) of
                Inl e \<Rightarrow> Inl e
              | Inr r \<Rightarrow>
                  let hotStocks' =
                        (if map_of hotStocks date = None then AList.update date [] hotStocks
                         else hotStocks);
                      t = Math_trunc (js_div_lit (turnover stockData) 1000000)
                  in case map_of hotStocks' date of
                       None \<Rightarrow> Inl TypeError
                     | Some arr \<Rightarrow>
                         Inr (AList.update date
                                (arr @ [\<lparr>secId = sec, ratio = r, turnoverMln = t\<rparr>])
                                hotStocks'))"

fun hotStocksDay :: "averages \<Rightarrow> string \<Rightarrow> daymap \<Rightarrow> hotStocks \<Rightarrow> error + hotStocks" where
  "hotStocksDay averageVolume date [] hotStocks = Inr hotStocks"
| "hotStocksDay averageVolume date (entry # dayData) hotStocks =
     (case hotStockStep averageVolume date entry hotStocks of
        Inl e \<Rightarrow> Inl e
      | Inr hotStocks' \<Rightarrow> hotStocksDay averageVolume date dayData hotStocks')"

fun hotStocksAll :: "averages \<Rightarrow> dataset \<Rightarrow> hotStocks \<Rightarrow> error + hotStocks" where
  "hotStocksAll averageVolume [] hotStocks = Inr hotStocks"
| "hotStocksAll averageVolume ((date, dayData) # imoexData) hotStocks =
     (case hotStocksDay averageVolume date dayData hotStocks of
        Inl e \<Rightarrow> Inl e
      | Inr hotStocks' \<Rightarrow> hotStocksAll averageVolume imoexData hotStocks')"

definition computeHotStocks :: "dataset \<Rightarrow> averages \<Rightarrow> error + hotStocks" where
  "computeHotStocks imoexData averageVolume = hotStocksAll averageVolume imoexData []"

subsection \<open>\<open>getHotStocks\<close>\<close>

text \<open>
  The state that outlives a call: the map \<open>cacheImoexData\<close>, and the number of requests sent
  to the endpoint so far.
\<close>

record world =
  cacheImoexData :: "(string \<times> hotStocks) list"
  requests :: nat

text \<open>
  The key of the cache is \<open>cacheKeyOf\<close>: the window size and the local day of the call.
  \<open>getHotStocks\<close> at the instant \<open>now\<close>. The value is \<open>None\<close> when the call never settles;
  otherwise it is the object the promise resolves to, or the exception it rejects with
  (\<open>loadData\<close> having returned \<open>undefined\<close>, \<open>computeAverageVolume\<close> throws a \<open>TypeError\<close> on
  it), and the state after the call. The object lists the dates in the order of the map.
\<close>

definition cacheKeyOf :: "zone \<Rightarrow> int \<Rightarrow> int \<Rightarrow> string" where
  "cacheKeyOf z daysBack now =
     ''hotStocks_'' @ String_of_int daysBack @ ''_'' @ formatDate z (Some now)"

definition getHotStocks ::
    "zone \<Rightarrow> server \<Rightarrow> int \<Rightarrow> int \<Rightarrow> world \<Rightarrow> ((error + hotStocks) \<times> world) option" where
  "getHotStocks z srv now daysBack w =
     (let cacheKey = cacheKeyOf z daysBack now
      in if map_of (cacheImoexData w) cacheKey = None then
           (case loadData z srv daysBack now (requests w) of
              None \<Rightarrow> None
            | Some (None, n') \<Rightarrow> Some (Inl TypeError, w\<lparr>requests := n'\<rparr>)
            | Some (Some moexData, n') \<Rightarrow>
                (case computeAverageVolume moexData of
                   Inl e \<Rightarrow> Some (Inl e, w\<lparr>requests := n'\<rparr>)
                 | Inr averageVolume \<Rightarrow>
                     (case computeHotStocks moexData averageVolume of
                        Inl e \<Rightarrow> Some (Inl e, w\<lparr>requests := n'\<rparr>)
                      | Inr hotStocks \<Rightarrow>
                          Some (Inr hotStocks,
                                \<lparr>cacheImoexData = AList.update cacheKey hotStocks [],
                                 requests = n'\<rparr>))))
         else
           (case map_of (cacheImoexData w) cacheKey of
              None \<Rightarrow> Some (Inl TypeError, w)
            | Some hotStocks \<Rightarrow> Some (Inr hotStocks, w)))"

subsection \<open>Auxiliary notions for the properties\<close>

text \<open>Every entry of the running tallies has been counted at least once.\<close>

definition counted :: "(cell \<times> tally) list \<Rightarrow> bool" where
  "counted m = (\<forall>(k, d) \<in> set m. 1 \<le> count d)"

text \<open>The two decimal digits of a number below 100.\<close>

definition twoDigits :: "nat \<Rightarrow> string" where
  "twoDigits k = [char_of (48 + k div 10), char_of (48 + k mod 10)]"

text \<open>
  The days that the generator is to yield from the counter \<open>i\<close> on, when its date stands on
  the day \<open>d\<close>: the days before \<open>d\<close> that are no Saturday or Sunday, latest first, until the
  counter has passed \<open>daysBack\<close>.
\<close>

function businessDays :: "int \<Rightarrow> int \<Rightarrow> int \<Rightarrow> int list" where
  "businessDays i daysBack d =
     (if i \<le> daysBack then
        if weekDay (d - 1) = 0 \<or> weekDay (d - 1) = 6 then businessDays i daysBack (d - 1)
        else (d - 1) # businessDays (i + 1) daysBack (d - 1)
      else [])"
  by pat_completeness auto
termination
  by (relation "measure (\<lambda>(i, daysBack, d).
         nat (3 * (daysBack + 1 - i)) +
         (if weekDay (d - 1) = 0 then 2 else if weekDay (d - 1) = 6 then 1 else 0))")
     (auto simp: weekDay_def, presburger+)

declare businessDays.simps [simp del]

text \<open>The date of a day as year, two-digit month and two-digit day of the month.\<close>

definition isoDate :: "int \<Rightarrow> string" where
  "isoDate d =
     String_of_int (yearFromDay d) @ ''-'' @ twoDigits (nat (monthFromDay d + 1)) @ ''-'' @
     twoDigits (nat (dateFromDay d))"

text \<open>
  The local time \<open>t\<close> exists in the zone on its own day and within the range of a \<open>Date\<close>:
  read as a local time it is an instant of the range whose local time is on the day of \<open>t\<close>.
\<close>

definition onItsDay :: "zone \<Rightarrow> int \<Rightarrow> bool" where
  "onItsDay z t = (\<bar>UTC z t\<bar> \<le> 8640000000000000 \<and> Day (LocalTime z (UTC z t)) = Day t)"

text \<open>
  Time zones. A host on UTC; the local mean time of Manila, 15:56 behind UTC up to the end of
  30 December 1844 and 8:04 ahead of it from then on, so that 31 December 1844 is no local
  day; and the time of Apia, 10 hours behind UTC up to the end of 29 December 2011 and 14
  hours ahead of it from then on, so that 30 December 2011 is no local day.
\<close>

definition utc :: zone where
  "utc t isUTC = 0"

definition manila :: zone where
  "manila t isUTC =
     (if isUTC then (if t < - 3944621040000 then - 57360000 else 29040000)
      else (if t < - 3944592000000 then - 57360000 else 29040000))"

definition apia :: zone where
  "apia t isUTC =
     (if isUTC then (if t < 1325239200000 then - 36000000 else 50400000)
      else (if t < 1325289600000 then - 36000000 else 50400000))"

text \<open>
  The records of a security in a dataset, one for each day on which it appears, in the order
  of the days.
\<close>

definition appearances :: "dataset \<Rightarrow> cell \<Rightarrow> stock list" where
  "appearances imoexData sec = List.map_filter (\<lambda>(date, dayData). map_of dayData sec) imoexData"

text \<open>A tally after one more record, from no tally or from the one so far.\<close>

fun bump :: "tally option \<Rightarrow> stock \<Rightarrow> tally" where
  "bump None s = \<lparr>totalVolume = volume s, count = 1\<rparr>"
| "bump (Some cur) s = \<lparr>totalVolume = totalVolume cur + volume s, count = count cur + 1\<rparr>"

text \<open>
  The entry that \<open>computeHotStocks\<close> pushes for a record of a day, if it pushes one: none for
  a security without an average, and none for an average of zero.
\<close>

definition hotEntry :: "averages \<Rightarrow> cell \<times> stock \<Rightarrow> hotStock option" where
  "hotEntry averageVolume entry =
     (case entry of (sec, stockData) \<Rightarrow>
        case map_of averageVolume sec of
          None \<Rightarrow> None
        | Some avg \<Rightarrow>
            if average avg = 0 then None
            else
              case divideBigInt (volume stockData) (average avg) of
                Inl e \<Rightarrow> None
              | Inr r \<Rightarrow>
                  Some \<lparr>secId = sec, ratio = r,
                        turnoverMln = Math_trunc (js_div_lit (turnover stockData) 1000000)\<rparr>)"

text \<open>The entries pushed for a whole day.\<close>

definition hotEntries :: "averages \<Rightarrow> daymap \<Rightarrow> hotStock list" where
  "hotEntries averageVolume dayData = List.map_filter (hotEntry averageVolume) dayData"

text \<open>
  A window of ten business days: \<open>AAA\<close> is traded on two of them, with volumes 100 and 300,
  \<open>BBB\<close> on all of them.
\<close>

definition window10 :: dataset where
  "window10 =
     [(''2026-10-30'', [(Txt ''BBB'', \<lparr>volume = 50, turnover = Fin 5000\<rparr>)]),
      (''2026-10-29'', [(Txt ''BBB'', \<lparr>volume = 60, turnover = Fin 6000\<rparr>),
                        (Txt ''AAA'', \<lparr>volume = 100, turnover = Fin 2500000\<rparr>)]),
      (''2026-10-28'', [(Txt ''BBB'', \<lparr>volume = 50, turnover = Fin 5000\<rparr>)]),
      (''2026-10-27'', [(Txt ''BBB'', \<lparr>volume = 40, turnover = Fin 4000\<rparr>)]),
      (''2026-10-26'', [(Txt ''BBB'', \<lparr>volume = 50, turnover = Fin 5000\<rparr>)]),
      (''2026-10-23'', [(Txt ''AAA'', \<lparr>volume = 300, turnover = Fin 7500000\<rparr>),
                        (Txt ''BBB'', \<lparr>volume = 50, turnover = Fin 5000\<rparr>)]),
      (''2026-10-22'', [(Txt ''BBB'', \<lparr>volume = 50, turnover = Fin 5000\<rparr>)]),
      (''2026-10-21'', [(Txt ''BBB'', \<lparr>volume = 50, turnover = Fin 5000\<rparr>)]),
      (''2026-10-20'', [(Txt ''BBB'', \<lparr>volume = 50, turnover = Fin 5000\<rparr>)]),
      (''2026-10-19'', [(Txt ''BBB'', \<lparr>volume = 50, turnover = Fin 5000\<rparr>)])]"

text \<open>
  A window of two days: \<open>AAA\<close> with volumes 100 and 400, and \<open>ZZZ\<close>, listed but not traded.
\<close>

definition window2 :: dataset where
  "window2 =
     [(''2026-10-30'', [(Txt ''AAA'', \<lparr>volume = 100, turnover = Fin 2500000\<rparr>),
                        (Txt ''ZZZ'', \<lparr>volume = 0, turnover = Fin 0\<rparr>)]),
      (''2026-10-29'', [(Txt ''AAA'', \<lparr>volume = 400, turnover = Fin 10400000\<rparr>),
                        (Txt ''ZZZ'', \<lparr>volume = 0, turnover = Fin 0\<rparr>)])]"

text \<open>
  Synthetic endpoints. A decoded page with the columns in the order \<open>SECID\<close>, \<open>TRADEDATE\<close>,
  \<open>VOLUME\<close>, \<open>CLOSE\<close> and one cursor row:
\<close>

definition pageOf :: "cell list list \<Rightarrow> int \<Rightarrow> int \<Rightarrow> int \<Rightarrow> response" where
  "pageOf rows pageIndex pageTotal pageSize =
     \<lparr>history = \<lparr>columns = [''SECID'', ''TRADEDATE'', ''VOLUME'', ''CLOSE''], data = rows\<rparr>,
      history_cursor =
        \<lparr>columns = [''INDEX'', ''TOTAL'', ''PAGESIZE''], data = [[pageIndex, pageTotal, pageSize]]\<rparr>\<rparr>"

definition quote :: "string \<Rightarrow> string \<Rightarrow> rat \<Rightarrow> rat \<Rightarrow> cell list" where
  "quote sec date vol close = [Txt sec, Txt date, Num (Fin vol), Num (Fin close)]"


text \<open>One security on one page, for every date.\<close>

definition onePage :: server where
  "onePage n date start = Inr (pageOf [quote ''AAA'' date 100 25] 0 1 100)"

text \<open>The same endpoint, failing on the first request only, and one that always fails.\<close>

definition flaky :: server where
  "flaky n date start = (if n = 0 then Inl TransportError else onePage n date start)"

definition unreachable :: server where
  "unreachable n date start = Inl TransportError"

text \<open>An endpoint whose history table has no \<open>CLOSE\<close> column.\<close>

definition noClose :: server where
  "noClose n date start =
     Inr \<lparr>history = \<lparr>columns = [''SECID'', ''TRADEDATE'', ''VOLUME''],
                      data = [[Txt ''AAA'', Txt date, Num (Fin 100)]]\<rparr>,
          history_cursor =
            \<lparr>columns = [''INDEX'', ''TOTAL'', ''PAGESIZE''], data = [[0, 1, 100]]\<rparr>\<rparr>"

text \<open>The state of a freshly loaded program.\<close>

definition initialWorld :: world where
  "initialWorld = \<lparr>cacheImoexData = [], requests = 0\<rparr>"

section \<open>Properties\<close>

subsection \<open>Maps as association lists\<close>

lemma set_update_subset: "set (AList.update k v al) \<subseteq> insert (k, v) (set al)"
  by (induction al) auto

subsection \<open>BigInt division\<close>

lemma sdiv_nonneg: "0 \<le> a \<Longrightarrow> 0 < b \<Longrightarrow> a sdiv b = a div (b::int)"
  by (simp add: signed_divide_int_def sgn_if)

subsection \<open>\<open>divideBigInt\<close>: scale invariance\<close>

text \<open>
  Claim C5. \<open>divideBigInt\<close> is a function of its arguments (so it is deterministic), and it is
  scale-invariant: for every non-negative integer \<open>a\<close>, positive integer \<open>b\<close> and positive
  integer \<open>k\<close>, \<open>divideBigInt(k*a, k*b)\<close> equals \<open>divideBigInt(a, b)\<close>.
\<close>

theorem divideBigInt_scale_invariant:
  assumes "0 \<le> a" and "0 < b" and "0 < k"
  shows "divideBigInt (k * a) (k * b) = divideBigInt a b"
proof -
  have "(k * a * 100) sdiv (k * b) = (k * (a * 100)) div (k * b)"
    using assms by (simp add: sdiv_nonneg mult.assoc)
  also have "\<dots> = (a * 100) div b"
    using assms by simp
  also have "\<dots> = (a * 100) sdiv b"
    using assms by (simp add: sdiv_nonneg)
  finally show ?thesis
    using assms by (simp add: divideBigInt_def bigint_div_def)
qed

theorem divideBigInt_scale_invariant_witness:
  "(0::int) \<le> 1 \<and> (0::int) < 3 \<and> (0::int) < 7 \<and>
   divideBigInt (7 * 1) (7 * 3) = divideBigInt 1 3"
  using divideBigInt_scale_invariant [of 1 3 7] by simp

subsection \<open>\<open>computeAverageVolume\<close>: the tallies\<close>

lemma tallyStock_eq:
  "tallyStock (k, s) m =
     AList.update k
       (case map_of m k of
          None \<Rightarrow> \<lparr>totalVolume = volume s, count = 1\<rparr>
        | Some cur \<Rightarrow> \<lparr>totalVolume = totalVolume cur + volume s, count = count cur + 1\<rparr>) m"
  by (cases "map_of m k") (simp_all add: update_conv')

declare tallyStock.simps [simp del]

lemma counted_tallyStock: "counted m \<Longrightarrow> counted (tallyStock e m)"
proof -
  assume c: "counted m"
  obtain k s where e: "e = (k, s)" by (cases e)
  have "1 \<le> count (case map_of m k of
          None \<Rightarrow> \<lparr>totalVolume = volume s, count = 1\<rparr>
        | Some cur \<Rightarrow> \<lparr>totalVolume = totalVolume cur + volume s, count = count cur + 1\<rparr>)"
    by (cases "map_of m k") simp_all
  then show ?thesis
    unfolding e tallyStock_eq counted_def
    using c set_update_subset[of k _ m] by (fastforce simp: counted_def)
qed

lemma counted_fold_day: "counted m \<Longrightarrow> counted (fold tallyStock day m)"
  by (induction day arbitrary: m) (auto simp: counted_tallyStock)

lemma counted_fold_all:
  "counted m \<Longrightarrow> counted (fold (\<lambda>(date, dayData). fold tallyStock dayData) d m)"
  by (induction d arbitrary: m) (auto simp: counted_fold_day)

lemma counted_tallies: "counted (fold (\<lambda>(date, dayData). fold tallyStock dayData) d [])"
  by (rule counted_fold_all) (simp add: counted_def)

lemma setAverages_counted:
  "counted m \<Longrightarrow> \<exists>avgs. setAverages m = Inr avgs \<and> map fst avgs = map fst m \<and>
     (\<forall>(k, d) \<in> set avgs. 1 \<le> count d)"
proof (induction m)
  case Nil
  then show ?case by simp
next
  case (Cons p m)
  obtain k d where p: "p = (k, d)" by (cases p)
  from Cons.prems have cm: "counted m" and cd: "1 \<le> count d"
    by (auto simp: counted_def p)
  from Cons.IH[OF cm] obtain avgs where a: "setAverages m = Inr avgs" "map fst avgs = map fst m"
    "\<forall>(k, d) \<in> set avgs. 1 \<le> count d" by blast
  show ?case using a cd by (auto simp: p bigint_div_def)
qed

text \<open>
  Claim C10. For every dataset, \<open>computeAverageVolume\<close> returns (the division
  \<open>totalVolume / BigInt(count)\<close> never throws on a zero divisor), and every entry of the map
  it returns has a count of at least 1.
\<close>

theorem computeAverageVolume_count_positive:
  "\<exists>avgs. computeAverageVolume imoexData = Inr avgs \<and> (\<forall>(k, d) \<in> set avgs. 1 \<le> count d)"
proof -
  from setAverages_counted[OF counted_tallies] show ?thesis
    by (auto simp: computeAverageVolume_def)
qed

theorem computeAverageVolume_count_positive_witness:
  "\<exists>avgs. computeAverageVolume
             [(''2026-10-30'', [(Txt ''AAA'', \<lparr>volume = 100, turnover = Fin 0\<rparr>)]),
              (''2026-10-29'', [(Txt ''AAA'', \<lparr>volume = 300, turnover = Fin 0\<rparr>)])] = Inr avgs \<and>
          map fst avgs = [Txt ''AAA''] \<and> (\<forall>(k, d) \<in> set avgs. 1 \<le> count d)"
  using computeAverageVolume_count_positive
    [of "[(''2026-10-30'', [(Txt ''AAA'', \<lparr>volume = 100, turnover = Fin 0\<rparr>)]),
          (''2026-10-29'', [(Txt ''AAA'', \<lparr>volume = 300, turnover = Fin 0\<rparr>)])]"]
  by (auto simp: computeAverageVolume_def bigint_div_def tallyStock.simps)

subsection \<open>Calendar fields of a day\<close>

lemma div_step: "0 < c \<Longrightarrow> (a + 1) div c = a div c + (if (a + 1) mod c = 0 then 1 else 0)" for a c :: int
proof -
  assume c: "0 < c"
  have e1: "a = c * (a div c) + a mod c" by simp
  have b: "0 \<le> a mod c" "a mod c < c" using c by simp_all
  show ?thesis
  proof (cases "a mod c + 1 = c")
    case True
    then have "a + 1 = c * (a div c) + c" using e1 by linarith
    then have "a + 1 = c * (a div c + 1)" by (simp add: algebra_simps)
    then show ?thesis using c by simp
  next
    case False
    then have lt: "a mod c + 1 < c" using b by linarith
    have e2: "a + 1 = c * (a div c) + (a mod c + 1)" using e1 by linarith
    have r: "0 \<le> a mod c + 1" using b by linarith
    have d: "(a + 1) div c = a div c"
      by (rule int_div_pos_eq[OF e2 r lt])
    have m: "(a + 1) mod c = a mod c + 1"
      by (rule int_mod_pos_eq[OF e2 r lt])
    then have "(a + 1) mod c \<noteq> 0" using b by linarith
    then show ?thesis using d by simp
  qed
qed

lemma leap_mods:
  "((y - 1969 + 1) mod 4 = 0) = (y mod 4 = 0)"
  "((y - 1901 + 1) mod 100 = 0) = (y mod 100 = 0)"
  "((y - 1601 + 1) mod 400 = 0) = (y mod 400 = 0)" for y :: int
  by presburger+

lemma mod_100_4: "y mod 100 = 0 \<Longrightarrow> y mod 4 = 0" for y :: int by presburger
lemma mod_400_100: "y mod 400 = 0 \<Longrightarrow> y mod 100 = 0" for y :: int by presburger

lemma dayFromYear_Suc: "dayFromYear (y + 1) = dayFromYear y + daysInYear y"
proof -
  have a: "(y + 1 - 1969) div 4 = (y - 1969) div 4 + (if y mod 4 = 0 then 1 else 0)"
    using div_step[of 4 "y - 1969"] leap_mods(1)[of y] by (simp add: algebra_simps)
  have b: "(y + 1 - 1901) div 100 = (y - 1901) div 100 + (if y mod 100 = 0 then 1 else 0)"
    using div_step[of 100 "y - 1901"] leap_mods(2)[of y] by (simp add: algebra_simps)
  have c: "(y + 1 - 1601) div 400 = (y - 1601) div 400 + (if y mod 400 = 0 then 1 else 0)"
    using div_step[of 400 "y - 1601"] leap_mods(3)[of y] by (simp add: algebra_simps)
  show ?thesis
    unfolding dayFromYear_def daysInYear_def a b c
    using mod_100_4[of y] mod_400_100[of y] by auto
qed

lemma div_bounds: "0 < c \<Longrightarrow> c * (a div c) \<le> a \<and> a < c * (a div c) + c" for a c :: int
proof -
  assume c: "0 < c"
  have "a = c * (a div c) + a mod c" by simp
  moreover have "0 \<le> a mod c" "a mod c < c" using c by simp_all
  ultimately show ?thesis by linarith
qed

lemma dayFromYear_approx:
  "146097 * y - 287811681 \<le> 400 * dayFromYear y \<and> 400 * dayFromYear y \<le> 146097 * y - 287810499"
proof -
  define a where "a = (y - 1969) div 4"
  define b where "b = (y - 1901) div 100"
  define c where "c = (y - 1601) div 400"
  have "4 * a \<le> y - 1969" "y - 1969 < 4 * a + 4"
    using div_bounds[of 4 "y - 1969"] by (simp_all add: a_def)
  moreover have "100 * b \<le> y - 1901" "y - 1901 < 100 * b + 100"
    using div_bounds[of 100 "y - 1901"] by (simp_all add: b_def)
  moreover have "400 * c \<le> y - 1601" "y - 1601 < 400 * c + 400"
    using div_bounds[of 400 "y - 1601"] by (simp_all add: c_def)
  moreover have "dayFromYear y = 365 * y - 719050 + a - b + c"
    by (simp add: dayFromYear_def a_def b_def c_def)
  ultimately show ?thesis by linarith
qed

lemma daysInYear_cases: "daysInYear y = 365 \<or> daysInYear y = 366"
  by (simp add: daysInYear_def)

lemma yearFromDay_bounds:
  "dayFromYear (yearFromDay n) \<le> n \<and> n < dayFromYear (yearFromDay n + 1)"
proof -
  define q where "q = (n * 400) div 146097"
  define c where "c = 1970 + q"
  have cb: "146097 * q \<le> 400 * n" "400 * n < 146097 * q + 146097"
    using div_bounds[of 146097 "n * 400"] by (simp_all add: q_def)
  define p where "p = c - 1"
  define r where "r = c + 1"
  define t where "t = r + 1"
  have pc: "p = 1969 + q" and tc: "t = 1972 + q"
    by (simp_all add: p_def t_def r_def c_def)
  have lo: "dayFromYear p \<le> n"
    using dayFromYear_approx[of p] cb pc by linarith
  have hi: "n < dayFromYear t"
    using dayFromYear_approx[of t] cb tc by linarith
  have s1: "dayFromYear c = dayFromYear p + daysInYear p"
    using dayFromYear_Suc[of p] by (simp add: p_def)
  have s2: "dayFromYear r = dayFromYear c + daysInYear c"
    using dayFromYear_Suc[of c] by (simp add: r_def)
  have s3: "dayFromYear t = dayFromYear r + daysInYear r"
    using dayFromYear_Suc[of r] by (simp add: t_def)
  have g: "yearFromDay n = (if dayFromYear r \<le> n then r else if n < dayFromYear c then p else c)"
    by (simp add: yearFromDay_def Let_def c_def q_def r_def p_def)
  show ?thesis
  proof (cases "dayFromYear r \<le> n")
    case True
    then show ?thesis using g hi by (simp add: t_def)
  next
    case False
    note nr = this
    show ?thesis
    proof (cases "n < dayFromYear c")
      case True
      then show ?thesis using g nr lo by (simp add: p_def)
    next
      case False
      then show ?thesis using g nr by (simp add: r_def)
    qed
  qed
qed

lemma dayWithinYear_bounds: "0 \<le> dayWithinYear n \<and> dayWithinYear n < daysInYear (yearFromDay n)"
  using yearFromDay_bounds[of n] dayFromYear_Suc[of "yearFromDay n"]
  by (simp add: dayWithinYear_def)

lemma monthFromDay_bounds: "0 \<le> monthFromDay n \<and> monthFromDay n \<le> 11"
  by (simp add: monthFromDay_def Let_def)

lemma dateFromDay_bounds: "1 \<le> dateFromDay n \<and> dateFromDay n \<le> 31"
proof -
  have l: "inLeapYear n = 0 \<or> inLeapYear n = 1" by (simp add: inLeapYear_def)
  have d: "0 \<le> dayWithinYear n" "dayWithinYear n < 365 + inLeapYear n"
    using dayWithinYear_bounds[of n] daysInYear_cases[of "yearFromDay n"]
    by (auto simp: inLeapYear_def)
  show ?thesis
    unfolding dateFromDay_def monthFromDay_def Let_def
    using l d by (auto split: if_splits)
qed

lemma MakeDay_same_month: "MakeDay (yearFromDay n) (monthFromDay n) dt = n - dateFromDay n + dt"
proof -
  have m: "monthFromDay n div 12 = 0" "monthFromDay n mod 12 = monthFromDay n"
    using monthFromDay_bounds[of n] by simp_all
  have "daysBeforeMonth (monthFromDay n) (inLeapYear n) = dayWithinYear n - dateFromDay n + 1"
    by (simp add: daysBeforeMonth_def dateFromDay_def Let_def)
  then show ?thesis
    by (simp add: MakeDay_def m Let_def inLeapYear_def[symmetric] dayWithinYear_def)
qed

lemma TimeWithinDay_bounds: "0 \<le> TimeWithinDay t \<and> TimeWithinDay t < msPerDay"
  by (simp add: TimeWithinDay_def msPerDay_def)

lemma Day_MakeDate: "Day (MakeDate d (TimeWithinDay t)) = d"
proof -
  have "(d * msPerDay + t mod msPerDay) div msPerDay = d"
    by (simp add: msPerDay_def)
  then show ?thesis by (simp add: Day_def MakeDate_def TimeWithinDay_def)
qed

subsection \<open>\<open>formatDate\<close>\<close>

lemma char_of_48: "char_of (48::nat) = CHR ''0''"
  by code_simp

lemma digits_one: "k < 10 \<Longrightarrow> digits k = [char_of (48 + k)]"
  by (simp add: digits.simps[of k])

lemma digits_two: "10 \<le> k \<Longrightarrow> k < 100 \<Longrightarrow> digits k = twoDigits k"
proof -
  assume k: "10 \<le> k" "k < 100"
  then have "k div 10 < 10" by simp
  then have "digits (k div 10) = [char_of (48 + k div 10)]" by (rule digits_one)
  then show ?thesis using k by (simp add: digits.simps[of k] twoDigits_def)
qed

lemma length_digits_four: "1000 \<le> k \<Longrightarrow> k < 10000 \<Longrightarrow> length (digits k) = 4"
proof -
  assume k: "1000 \<le> k" "k < 10000"
  define h where "h = k div 10"
  define g where "g = h div 10"
  have a: "digits k = digits h @ [char_of (48 + k mod 10)]"
    using k by (simp add: digits.simps[of k] h_def)
  have "100 \<le> h" using k by (simp add: h_def)
  then have b: "digits h = digits g @ [char_of (48 + h mod 10)]"
    by (simp add: digits.simps[of h] g_def)
  have "10 \<le> g" "g < 100" using k by (simp_all add: g_def h_def)
  then have "digits g = twoDigits g" by (rule digits_two)
  then show ?thesis using a b by (simp add: twoDigits_def)
qed

lemma padStart2_small: "0 \<le> k \<Longrightarrow> k < 100 \<Longrightarrow> padStart2 (String_of_int k) = twoDigits (nat k)"
proof -
  assume k: "0 \<le> k" "k < 100"
  show ?thesis
  proof (cases "k < 10")
    case True
    then have "digits (nat k) = [char_of (48 + nat k)]" using k by (intro digits_one) simp
    moreover have "nat k div 10 = 0" "nat k mod 10 = nat k" using True k by simp_all
    ultimately show ?thesis using k
      by (simp add: padStart2_def String_of_int_def twoDigits_def char_of_48)
  next
    case False
    then have "digits (nat k) = twoDigits (nat k)" using k by (intro digits_two) simp_all
    then show ?thesis using k by (simp add: padStart2_def String_of_int_def twoDigits_def)
  qed
qed

text \<open>The string of a valid \<open>Date\<close> is the date of its local day.\<close>

lemma formatDate_valid: "formatDate z (Some t) = isoDate (Day (LocalTime z t))"
  using monthFromDay_bounds[of "Day (LocalTime z t)"] dateFromDay_bounds[of "Day (LocalTime z t)"]
  by (simp add: formatDate_def isoDate_def getFullYear_def getMonth_def getDate_def
        String_of_number_def Let_def padStart2_small)

lemma formatDate_invalid: "formatDate z None = ''NaN-NaN-NaN''"
  by (simp add: formatDate_def getFullYear_def getMonth_def getDate_def String_of_number_def
        padStart2_def)

lemma isoDate_length:
  "1000 \<le> yearFromDay d \<Longrightarrow> yearFromDay d \<le> 9999 \<Longrightarrow> length (isoDate d) = 10"
  using length_digits_four[of "nat (yearFromDay d)"]
  by (simp add: isoDate_def String_of_int_def twoDigits_def)

subsection \<open>\<open>workDaysGenerator\<close>\<close>

lemma setDate_day_before:
  "setDate z (Some tv) (map_option (\<lambda>d. d - 1) (getDate z (Some tv))) =
     TimeClip (UTC z (MakeDate (Day (LocalTime z tv) - 1) (TimeWithinDay (LocalTime z tv))))"
  by (simp add: setDate_def getDate_def Let_def MakeDay_same_month)

text \<open>One turn of the loop of the generator, on a Saturday or Sunday and on another day.\<close>

lemma workDaysNext_weekend:
  assumes "i \<le> daysBack"
    and "setDate z current (map_option (\<lambda>d. d - 1) (getDate z current)) = date"
    and "getDay z date = Some 0 \<or> getDay z date = Some 6"
  shows "workDaysNext z i daysBack current = workDaysNext z i daysBack date"
  using assms by (subst workDaysNext.simps) (simp add: Let_def)

lemma workDaysNext_weekday:
  assumes "i \<le> daysBack"
    and "setDate z current (map_option (\<lambda>d. d - 1) (getDate z current)) = date"
    and "getDay z date \<noteq> Some 0" and "getDay z date \<noteq> Some 6"
  shows "workDaysNext z i daysBack current = Some (Some (formatDate z date, i + 1, date))"
  using assms by (subst workDaysNext.simps) (simp add: Let_def)

lemma workDaysNext_done: "daysBack < i \<Longrightarrow> workDaysNext z i daysBack current = Some None"
  by (subst workDaysNext.simps) simp

lemma workDaysFrom_yield:
  "workDaysNext z i daysBack current = Some (Some (s, i', current')) \<Longrightarrow>
   workDaysFrom z i daysBack current =
     Option.bind (workDaysFrom z i' daysBack current') (\<lambda>rest. Some (s # rest))"
  by (subst workDaysFrom.simps) simp

lemma workDaysFrom_done: "daysBack < i \<Longrightarrow> workDaysFrom z i daysBack current = Some []"
  by (subst workDaysFrom.simps) (simp add: workDaysNext_done)

text \<open>
  Where the local time a day earlier exists on its own day and within the range of a
  \<open>Date\<close>, \<open>setDate\<close> with the day of the month less one moves the date to the day before.
\<close>

lemma setDate_previous:
  assumes "onItsDay z (MakeDate (Day (LocalTime z tv) - 1) (TimeWithinDay (LocalTime z tv)))"
  shows "\<exists>u. setDate z (Some tv) (map_option (\<lambda>d. d - 1) (getDate z (Some tv))) = Some u \<and>
             Day (LocalTime z u) = Day (LocalTime z tv) - 1"
proof -
  define t where "t = LocalTime z tv"
  define newDate where "newDate = MakeDate (Day t - 1) (TimeWithinDay t)"
  have m: "MakeDay (yearFromDay (Day t)) (monthFromDay (Day t)) (dateFromDay (Day t) - 1) = Day t - 1"
    by (simp add: MakeDay_same_month)
  have s: "setDate z (Some tv) (map_option (\<lambda>d. d - 1) (getDate z (Some tv))) = TimeClip (UTC z newDate)"
    by (simp add: setDate_def getDate_def Let_def t_def[symmetric] m newDate_def)
  from assms have a: "\<bar>UTC z newDate\<bar> \<le> 8640000000000000"
    and b: "Day (LocalTime z (UTC z newDate)) = Day newDate"
    by (simp_all add: onItsDay_def newDate_def t_def)
  have "Day newDate = Day t - 1" by (simp add: newDate_def Day_MakeDate)
  then show ?thesis using s a b by (simp add: TimeClip_def t_def)
qed

lemma businessDays_days:
  "i \<le> daysBack + 1 \<Longrightarrow>
   int (length (businessDays i daysBack d)) = daysBack + 1 - i \<and>
   sorted_wrt (>) (businessDays i daysBack d) \<and>
   (\<forall>x \<in> set (businessDays i daysBack d). x < d \<and> weekDay x \<noteq> 0 \<and> weekDay x \<noteq> 6)"
proof (induction i daysBack d rule: businessDays.induct)
  case (1 i daysBack d)
  show ?case
  proof (cases "i \<le> daysBack")
    case False
    then have "i = daysBack + 1" using "1.prems" by simp
    then show ?thesis by (subst businessDays.simps, subst businessDays.simps, subst businessDays.simps) simp
  next
    case True
    show ?thesis
    proof (cases "weekDay (d - 1) = 0 \<or> weekDay (d - 1) = 6")
      case weekend: True
      have e: "businessDays i daysBack d = businessDays i daysBack (d - 1)"
        using True weekend by (subst businessDays.simps) simp
      from "1.IH"(1)[OF True weekend "1.prems"] show ?thesis
        unfolding e by fastforce
    next
      case weekday: False
      have e: "businessDays i daysBack d = (d - 1) # businessDays (i + 1) daysBack (d - 1)"
        using True weekday by (subst businessDays.simps) simp
      have le: "i + 1 \<le> daysBack + 1" using True by simp
      from "1.IH"(2)[OF True weekday le] weekday show ?thesis
        unfolding e by fastforce
    qed
  qed
qed

lemma businessDays_nonempty: "i \<le> daysBack \<Longrightarrow> \<exists>x \<in> set (businessDays i daysBack d). x \<le> d - 1"
proof -
  assume i: "i \<le> daysBack"
  then have "i \<le> daysBack + 1" by simp
  from businessDays_days[OF this, of d] i
  have l: "0 < length (businessDays i daysBack d)"
    and b: "\<forall>x \<in> set (businessDays i daysBack d). x < d" by auto
  from l obtain x where "x \<in> set (businessDays i daysBack d)"
    by (cases "businessDays i daysBack d") auto
  then show ?thesis using b by force
qed

text \<open>
  Where every local time of the days gone through is on its own day, the generator yields
  the dates of the business days.
\<close>

lemma workDaysFrom_businessDays:
  "Day (LocalTime z tv) = d \<Longrightarrow>
   (\<forall>t. Day t < d \<and> (\<exists>x \<in> set (businessDays i daysBack d). x \<le> Day t) \<longrightarrow> onItsDay z t) \<Longrightarrow>
   workDaysFrom z i daysBack (Some tv) = Some (map isoDate (businessDays i daysBack d))"
proof (induction i daysBack d arbitrary: tv rule: businessDays.induct)
  case (1 i daysBack d)
  show ?case
  proof (cases "i \<le> daysBack")
    case False
    then show ?thesis
      by (subst businessDays.simps) (simp add: workDaysFrom_done)
  next
    case True
    define t0 where "t0 = MakeDate (d - 1) (TimeWithinDay (LocalTime z tv))"
    have dt0: "Day t0 = d - 1" by (simp add: t0_def Day_MakeDate)
    from businessDays_nonempty[OF True, of d] dt0
    have "Day t0 < d \<and> (\<exists>x \<in> set (businessDays i daysBack d). x \<le> Day t0)" by simp
    then have "onItsDay z t0" using "1.prems"(2) by blast
    then obtain u where u: "setDate z (Some tv) (map_option (\<lambda>d. d - 1) (getDate z (Some tv))) = Some u"
      and du: "Day (LocalTime z u) = d - 1"
      using setDate_previous[of z tv] "1.prems"(1) unfolding t0_def by auto
    have wd: "getDay z (Some u) = Some (weekDay (d - 1))"
      by (simp add: getDay_def du)
    show ?thesis
    proof (cases "weekDay (d - 1) = 0 \<or> weekDay (d - 1) = 6")
      case weekend: True
      have e: "businessDays i daysBack d = businessDays i daysBack (d - 1)"
        using True weekend by (subst businessDays.simps) simp
      have n: "workDaysNext z i daysBack (Some tv) = workDaysNext z i daysBack (Some u)"
        using True weekend by (subst workDaysNext.simps) (simp add: u wd Let_def)
      have f: "workDaysFrom z i daysBack (Some tv) = workDaysFrom z i daysBack (Some u)"
        by (subst workDaysFrom.simps, subst (2) workDaysFrom.simps) (simp add: n)
      have "\<forall>t. Day t < d - 1 \<and> (\<exists>x \<in> set (businessDays i daysBack (d - 1)). x \<le> Day t) \<longrightarrow>
              onItsDay z t"
        using "1.prems"(2) unfolding e by auto
      from "1.IH"(1)[OF True weekend du this] show ?thesis
        unfolding e f .
    next
      case weekday: False
      have e: "businessDays i daysBack d = (d - 1) # businessDays (i + 1) daysBack (d - 1)"
        using True weekday by (subst businessDays.simps) simp
      have n: "workDaysNext z i daysBack (Some tv) = Some (Some (isoDate (d - 1), i + 1, Some u))"
        using True weekday
        by (subst workDaysNext.simps) (simp add: u wd Let_def formatDate_valid du)
      have f: "workDaysFrom z i daysBack (Some tv) =
               Option.bind (workDaysFrom z (i + 1) daysBack (Some u)) (\<lambda>rest. Some (isoDate (d - 1) # rest))"
        by (subst workDaysFrom.simps) (simp add: n)
      have "\<forall>t. Day t < d - 1 \<and> (\<exists>x \<in> set (businessDays (i + 1) daysBack (d - 1)). x \<le> Day t) \<longrightarrow>
              onItsDay z t"
        using "1.prems"(2) unfolding e by auto
      from "1.IH"(2)[OF True weekday du this] show ?thesis
        unfolding e f by simp
    qed
  qed
qed

text \<open>
  The loop never comes to a \<open>yield\<close> from a Saturday or Sunday on which \<open>setDate\<close> leaves
  the date where it is.
\<close>

lemma workDaysNext_returns_only_if:
  assumes "workDaysNext z i daysBack current = Some y"
  shows "\<not> (i \<le> daysBack \<and>
            setDate z current (map_option (\<lambda>d. d - 1) (getDate z current)) = current \<and>
            (getDay z current = Some 0 \<or> getDay z current = Some 6))"
proof (rule workDaysNext.raw_induct[where P = "\<lambda>z i daysBack current y.
          \<not> (i \<le> daysBack \<and>
              setDate z current (map_option (\<lambda>d. d - 1) (getDate z current)) = current \<and>
              (getDay z current = Some 0 \<or> getDay z current = Some 6))", OF _ assms])
  fix f :: "zone \<Rightarrow> int \<Rightarrow> int \<Rightarrow> jsdate \<Rightarrow> ((string \<times> int \<times> jsdate) option) option"
    and z i daysBack current y
  assume IH: "\<And>z i daysBack current y. f z i daysBack current = Some y \<Longrightarrow>
          \<not> (i \<le> daysBack \<and>
              setDate z current (map_option (\<lambda>d. d - 1) (getDate z current)) = current \<and>
              (getDay z current = Some 0 \<or> getDay z current = Some 6))"
    and eq: "(if i \<le> daysBack then
                let date = setDate z current (map_option (\<lambda>d. d - 1) (getDate z current));
                    dayOfWeek = getDay z date
                in if dayOfWeek = Some 0 \<or> dayOfWeek = Some 6 then f z i daysBack date
                   else Some (Some (formatDate z date, i + 1, date))
              else Some None) = Some y"
  show "\<not> (i \<le> daysBack \<and>
            setDate z current (map_option (\<lambda>d. d - 1) (getDate z current)) = current \<and>
            (getDay z current = Some 0 \<or> getDay z current = Some 6))"
  proof
    assume a: "i \<le> daysBack \<and>
            setDate z current (map_option (\<lambda>d. d - 1) (getDate z current)) = current \<and>
            (getDay z current = Some 0 \<or> getDay z current = Some 6)"
    then have "f z i daysBack current = Some y"
      using eq by (simp add: Let_def)
    from IH[OF this] a show False by blast
  qed
qed

lemma workDaysNext_stuck:
  assumes "i \<le> daysBack"
    and "setDate z current (map_option (\<lambda>d. d - 1) (getDate z current)) = current"
    and "getDay z current = Some 0 \<or> getDay z current = Some 6"
  shows "workDaysNext z i daysBack current = None"
proof (rule ccontr)
  assume "workDaysNext z i daysBack current \<noteq> None"
  then obtain y where "workDaysNext z i daysBack current = Some y" by blast
  from workDaysNext_returns_only_if[OF this] assms show False by blast
qed

text \<open>
  From noon of Monday 2 January 2012 in Apia the loop goes back over the Sunday to Saturday
  31 December 2011, and stays there: the day before does not exist, and \<open>setDate\<close> lands on
  the Saturday again.
\<close>

lemma apia_never_yields: "workDaysNext apia 0 0 (Some 1325455200000) = None"
proof -
  have s1: "setDate apia (Some 1325455200000)
              (map_option (\<lambda>d. d - 1) (getDate apia (Some 1325455200000))) = Some 1325368800000"
    by (simp add: setDate_day_before LocalTime_def UTC_def apia_def Day_def TimeWithinDay_def
          MakeDate_def msPerDay_def TimeClip_def)
  have d1: "getDay apia (Some 1325368800000) = Some 0"
    by (simp add: getDay_def weekDay_def LocalTime_def apia_def Day_def msPerDay_def)
  have s2: "setDate apia (Some 1325368800000)
              (map_option (\<lambda>d. d - 1) (getDate apia (Some 1325368800000))) = Some 1325282400000"
    by (simp add: setDate_day_before LocalTime_def UTC_def apia_def Day_def TimeWithinDay_def
          MakeDate_def msPerDay_def TimeClip_def)
  have d2: "getDay apia (Some 1325282400000) = Some 6"
    by (simp add: getDay_def weekDay_def LocalTime_def apia_def Day_def msPerDay_def)
  have s3: "setDate apia (Some 1325282400000)
              (map_option (\<lambda>d. d - 1) (getDate apia (Some 1325282400000))) = Some 1325282400000"
    by (simp add: setDate_day_before LocalTime_def UTC_def apia_def Day_def TimeWithinDay_def
          MakeDate_def msPerDay_def TimeClip_def)
  have "workDaysNext apia 0 0 (Some 1325455200000) = workDaysNext apia 0 0 (Some 1325368800000)"
    by (rule workDaysNext_weekend[OF _ s1]) (simp_all add: d1)
  also have "\<dots> = workDaysNext apia 0 0 (Some 1325282400000)"
    by (rule workDaysNext_weekend[OF _ s2]) (simp_all add: d2)
  also have "\<dots> = None"
    by (rule workDaysNext_stuck) (simp_all add: s3 d2)
  finally show ?thesis .
qed

text \<open>
  From noon of Thursday 2 January 1845 in Manila the loop yields Wednesday 1 January, and
  yields it again on every turn: the day before does not exist, and \<open>setDate\<close> lands on
  the Wednesday again.
\<close>

lemma manila_repeats:
  "workDaysFrom manila 0 2 (Some (- 3944491440000)) =
     Some [''1845-01-01'', ''1845-01-01'', ''1845-01-01'']"
proof -
  have s1: "setDate manila (Some (- 3944491440000))
              (map_option (\<lambda>d. d - 1) (getDate manila (Some (- 3944491440000)))) =
            Some (- 3944577840000)"
    by (simp add: setDate_day_before LocalTime_def UTC_def manila_def Day_def TimeWithinDay_def
          MakeDate_def msPerDay_def TimeClip_def)
  have s2: "setDate manila (Some (- 3944577840000))
              (map_option (\<lambda>d. d - 1) (getDate manila (Some (- 3944577840000)))) =
            Some (- 3944577840000)"
    by (simp add: setDate_day_before LocalTime_def UTC_def manila_def Day_def TimeWithinDay_def
          MakeDate_def msPerDay_def TimeClip_def)
  have d: "getDay manila (Some (- 3944577840000)) = Some 3"
    by (simp add: getDay_def weekDay_def LocalTime_def manila_def Day_def msPerDay_def)
  have i: "isoDate (- 45655) = ''1845-01-01''" by code_simp
  have f: "formatDate manila (Some (- 3944577840000)) = ''1845-01-01''"
    by (simp add: formatDate_valid LocalTime_def manila_def Day_def msPerDay_def i)
  have n0: "workDaysNext manila 0 2 (Some (- 3944491440000)) =
            Some (Some (''1845-01-01'', 1, Some (- 3944577840000)))"
    using workDaysNext_weekday[of 0 2 manila, OF _ s1] by (simp add: d f)
  have n1: "workDaysNext manila 1 2 (Some (- 3944577840000)) =
            Some (Some (''1845-01-01'', 2, Some (- 3944577840000)))"
    using workDaysNext_weekday[of 1 2 manila, OF _ s2] by (simp add: d f)
  have n2: "workDaysNext manila 2 2 (Some (- 3944577840000)) =
            Some (Some (''1845-01-01'', 3, Some (- 3944577840000)))"
    using workDaysNext_weekday[of 2 2 manila, OF _ s2] by (simp add: d f)
  show ?thesis
    by (simp add: workDaysFrom_yield[OF n0] workDaysFrom_yield[OF n1] workDaysFrom_yield[OF n2]
          workDaysFrom_done)
qed

text \<open>
  From the start of Friday 3 January 999 on UTC the day yielded is Thursday 2 January, its
  year printed with three digits.
\<close>

lemma year_999: "workDaysFrom utc 0 0 (Some (- 30641587200000)) = Some [''999-01-02'']"
proof -
  have s1: "setDate utc (Some (- 30641587200000))
              (map_option (\<lambda>d. d - 1) (getDate utc (Some (- 30641587200000)))) =
            Some (- 30641673600000)"
    by (simp add: setDate_day_before LocalTime_def UTC_def utc_def Day_def TimeWithinDay_def
          MakeDate_def msPerDay_def TimeClip_def)
  have d: "getDay utc (Some (- 30641673600000)) = Some 3"
    by (simp add: getDay_def weekDay_def LocalTime_def utc_def Day_def msPerDay_def)
  have i: "isoDate (- 354649) = ''999-01-02''" by code_simp
  have f: "formatDate utc (Some (- 30641673600000)) = ''999-01-02''"
    by (simp add: formatDate_valid LocalTime_def utc_def Day_def msPerDay_def i)
  have n0: "workDaysNext utc 0 0 (Some (- 30641587200000)) =
            Some (Some (''999-01-02'', 1, Some (- 30641673600000)))"
    using workDaysNext_weekday[of 0 0 utc, OF _ s1] by (simp add: d f)
  show ?thesis
    by (simp add: workDaysFrom_yield[OF n0] workDaysFrom_done)
qed

text \<open>
  From the earliest instant of a \<open>Date\<close> the day before is out of range: \<open>setDate\<close> leaves an
  Invalid Date, which is no Saturday or Sunday and is yielded as it prints.
\<close>

lemma earliest_date: "workDaysFrom utc 0 0 (Some (- 8640000000000000)) = Some [''NaN-NaN-NaN'']"
proof -
  have s1: "setDate utc (Some (- 8640000000000000))
              (map_option (\<lambda>d. d - 1) (getDate utc (Some (- 8640000000000000)))) = None"
    by (simp add: setDate_day_before LocalTime_def UTC_def utc_def Day_def TimeWithinDay_def
          MakeDate_def msPerDay_def TimeClip_def)
  have n0: "workDaysNext utc 0 0 (Some (- 8640000000000000)) =
            Some (Some (''NaN-NaN-NaN'', 1, None))"
    using workDaysNext_weekday[of 0 0 utc, OF _ s1] by (simp add: getDay_def formatDate_invalid)
  show ?thesis
    by (simp add: workDaysFrom_yield[OF n0] workDaysFrom_done)
qed

lemma businessDays_monday: "businessDays 0 3 20759 = [20756, 20755, 20754, 20753]"
  by code_simp

text \<open>
  Claim C4, for the start instants for which it holds. Take the local day of the start
  instant, and the days that \<open>businessDays\<close> counts back from it: the \<open>daysBack + 1\<close> latest
  days before it that are no Saturday or Sunday. If every local time on a day from the last
  of them up to the day before the start is on its own day in the time zone (the zone skips
  none of it) and within the range of a \<open>Date\<close>, then \<open>workDaysGenerator\<close> yields exactly
  \<open>daysBack + 1\<close> strings, the dates of those days: in strictly decreasing order, all
  strictly before the day of the start, none a Saturday or a Sunday. Each is the year, a
  two-digit month and a two-digit day of the month of the local day, joined by \<open>-\<close>; the
  year is printed as it is, which makes the ten characters of \<open>YYYY-MM-DD\<close> for the years
  1000 to 9999.
\<close>

theorem workDaysGenerator_business_days:
  assumes "0 \<le> daysBack"
    and "\<forall>t. Day t < Day (LocalTime z start) \<and>
             (\<exists>d \<in> set (businessDays 0 daysBack (Day (LocalTime z start))). d \<le> Day t) \<longrightarrow>
             onItsDay z t"
  shows "\<exists>ds. workDaysGenerator z daysBack (Some start) = Some (map isoDate ds) \<and>
           ds = businessDays 0 daysBack (Day (LocalTime z start)) \<and>
           length ds = nat daysBack + 1 \<and> sorted_wrt (>) ds \<and>
           (\<forall>d \<in> set ds.
              d < Day (LocalTime z start) \<and> weekDay d \<noteq> 0 \<and> weekDay d \<noteq> 6 \<and>
              isoDate d =
                String_of_int (yearFromDay d) @ ''-'' @ twoDigits (nat (monthFromDay d + 1)) @ ''-'' @
                twoDigits (nat (dateFromDay d)) \<and>
              1 \<le> monthFromDay d + 1 \<and> monthFromDay d + 1 \<le> 12 \<and>
              1 \<le> dateFromDay d \<and> dateFromDay d \<le> 31 \<and>
              (1000 \<le> yearFromDay d \<and> yearFromDay d \<le> 9999 \<longrightarrow> length (isoDate d) = 10))"
proof -
  define ds where "ds = businessDays 0 daysBack (Day (LocalTime z start))"
  have g: "workDaysGenerator z daysBack (Some start) = Some (map isoDate ds)"
    unfolding workDaysGenerator_def ds_def
    by (rule workDaysFrom_businessDays[OF refl assms(2)])
  from businessDays_days[of 0 daysBack "Day (LocalTime z start)"] assms(1)
  have l: "int (length ds) = daysBack + 1 - 0" and s: "sorted_wrt (>) ds"
    and b: "\<forall>d \<in> set ds. d < Day (LocalTime z start) \<and> weekDay d \<noteq> 0 \<and> weekDay d \<noteq> 6"
    by (simp_all add: ds_def)
  have len: "length ds = nat daysBack + 1" using l assms(1) by linarith
  have "\<forall>d \<in> set ds.
          d < Day (LocalTime z start) \<and> weekDay d \<noteq> 0 \<and> weekDay d \<noteq> 6 \<and>
          isoDate d =
            String_of_int (yearFromDay d) @ ''-'' @ twoDigits (nat (monthFromDay d + 1)) @ ''-'' @
            twoDigits (nat (dateFromDay d)) \<and>
          1 \<le> monthFromDay d + 1 \<and> monthFromDay d + 1 \<le> 12 \<and>
          1 \<le> dateFromDay d \<and> dateFromDay d \<le> 31 \<and>
          (1000 \<le> yearFromDay d \<and> yearFromDay d \<le> 9999 \<longrightarrow> length (isoDate d) = 10)"
  proof
    fix d assume "d \<in> set ds"
    then have "d < Day (LocalTime z start) \<and> weekDay d \<noteq> 0 \<and> weekDay d \<noteq> 6" using b by blast
    moreover have "isoDate d =
            String_of_int (yearFromDay d) @ ''-'' @ twoDigits (nat (monthFromDay d + 1)) @ ''-'' @
            twoDigits (nat (dateFromDay d))" by (simp add: isoDate_def)
    moreover note isoDate_length[of d]
    moreover have "1 \<le> monthFromDay d + 1 \<and> monthFromDay d + 1 \<le> 12"
      using monthFromDay_bounds[of d] by simp
    ultimately show "d < Day (LocalTime z start) \<and> weekDay d \<noteq> 0 \<and> weekDay d \<noteq> 6 \<and>
          isoDate d =
            String_of_int (yearFromDay d) @ ''-'' @ twoDigits (nat (monthFromDay d + 1)) @ ''-'' @
            twoDigits (nat (dateFromDay d)) \<and>
          1 \<le> monthFromDay d + 1 \<and> monthFromDay d + 1 \<le> 12 \<and>
          1 \<le> dateFromDay d \<and> dateFromDay d \<le> 31 \<and>
          (1000 \<le> yearFromDay d \<and> yearFromDay d \<le> 9999 \<longrightarrow> length (isoDate d) = 10)"
      using dateFromDay_bounds[of d] by blast
  qed
  then show ?thesis
    using g s len unfolding ds_def by blast
qed

text \<open>
  The four business days before Monday 2 November 2026, from nine in the morning in Manila
  (56 minutes past midnight UTC): the zone skips no time of those days.
\<close>

theorem workDaysGenerator_business_days_witness:
  "Day (LocalTime manila 1793580960000) = 20759 \<and>
   businessDays 0 3 20759 = [20756, 20755, 20754, 20753] \<and>
   workDaysGenerator manila 3 (Some 1793580960000) =
     Some [''2026-10-30'', ''2026-10-29'', ''2026-10-28'', ''2026-10-27''] \<and>
   (\<exists>ds. workDaysGenerator manila 3 (Some 1793580960000) = Some (map isoDate ds) \<and>
      length ds = 4 \<and> sorted_wrt (>) ds \<and>
      (\<forall>d \<in> set ds. d < 20759 \<and> weekDay d \<noteq> 0 \<and> weekDay d \<noteq> 6 \<and> length (isoDate d) = 10))"
proof -
  have d0: "Day (LocalTime manila 1793580960000) = 20759"
    by (simp add: Day_def LocalTime_def manila_def msPerDay_def)
  have good: "\<forall>t. Day t < Day (LocalTime manila 1793580960000) \<and>
             (\<exists>d \<in> set (businessDays 0 3 (Day (LocalTime manila 1793580960000))). d \<le> Day t) \<longrightarrow>
             onItsDay manila t"
  proof (intro allI impI)
    fix t
    assume "Day t < Day (LocalTime manila 1793580960000) \<and>
             (\<exists>d \<in> set (businessDays 0 3 (Day (LocalTime manila 1793580960000))). d \<le> Day t)"
    then have k: "Day t < 20759" "20753 \<le> Day t"
      by (auto simp: d0 businessDays_monday)
    have "86400000 * Day t \<le> t \<and> t < 86400000 * Day t + 86400000"
      using div_bounds[of 86400000 t] by (simp add: Day_def msPerDay_def)
    then have "1793059200000 \<le> t" "t < 1793577600000" using k by linarith+
    then show "onItsDay manila t"
      by (simp add: onItsDay_def UTC_def LocalTime_def manila_def)
  qed
  have e: "map isoDate [20756, 20755, 20754, 20753] =
      [''2026-10-30'', ''2026-10-29'', ''2026-10-28'', ''2026-10-27'']"
    by code_simp
  have y: "\<forall>d \<in> set [20756, 20755, 20754, 20753 :: int]. 1000 \<le> yearFromDay d \<and> yearFromDay d \<le> 9999"
    by code_simp
  have three: "(0::int) \<le> 3" by simp
  note T = workDaysGenerator_business_days[of 3 manila 1793580960000, OF three good,
      unfolded d0 businessDays_monday]
  then obtain ds where g: "workDaysGenerator manila 3 (Some 1793580960000) = Some (map isoDate ds)"
    and ds: "ds = [20756, 20755, 20754, 20753]"
    and len: "length ds = nat 3 + 1" and srt: "sorted_wrt (>) ds"
    and all: "\<forall>d \<in> set ds.
                d < 20759 \<and> weekDay d \<noteq> 0 \<and> weekDay d \<noteq> 6 \<and>
                isoDate d =
                  String_of_int (yearFromDay d) @ ''-'' @ twoDigits (nat (monthFromDay d + 1)) @
                  ''-'' @ twoDigits (nat (dateFromDay d)) \<and>
                1 \<le> monthFromDay d + 1 \<and> monthFromDay d + 1 \<le> 12 \<and>
                1 \<le> dateFromDay d \<and> dateFromDay d \<le> 31 \<and>
                (1000 \<le> yearFromDay d \<and> yearFromDay d \<le> 9999 \<longrightarrow> length (isoDate d) = 10)"
    by (elim exE conjE)
  have a: "\<forall>d \<in> set ds. d < 20759 \<and> weekDay d \<noteq> 0 \<and> weekDay d \<noteq> 6 \<and> length (isoDate d) = 10"
  proof
    fix d assume d: "d \<in> set ds"
    then have "1000 \<le> yearFromDay d \<and> yearFromDay d \<le> 9999"
      using y unfolding ds by (rule bspec[rotated])
    with bspec[OF all d]
    show "d < 20759 \<and> weekDay d \<noteq> 0 \<and> weekDay d \<noteq> 6 \<and> length (isoDate d) = 10"
      by blast
  qed
  have l4: "length ds = 4" using len by simp
  have w: "workDaysGenerator manila 3 (Some 1793580960000) =
     Some [''2026-10-30'', ''2026-10-29'', ''2026-10-28'', ''2026-10-27'']"
    using g unfolding ds e .
  have ex: "\<exists>ds. workDaysGenerator manila 3 (Some 1793580960000) = Some (map isoDate ds) \<and>
      length ds = 4 \<and> sorted_wrt (>) ds \<and>
      (\<forall>d \<in> set ds. d < 20759 \<and> weekDay d \<noteq> 0 \<and> weekDay d \<noteq> 6 \<and> length (isoDate d) = 10)"
    using g l4 srt a by (intro exI[of _ ds] conjI)
  show ?thesis using d0 businessDays_monday w ex by (intro conjI)
qed

text \<open>
  Not for every start instant. From 3 January 999 on UTC the one string yielded is
  \<open>999-01-02\<close>, nine characters and no \<open>YYYY-MM-DD\<close>. From the earliest instant of a \<open>Date\<close>
  the day before is out of range, and the string yielded is that of an Invalid Date. From
  noon of 2 January 1845 in Manila, where 31 December 1844 is no local day, the same date is
  yielded three times. From noon of 2 January 2012 in Apia, where 30 December 2011 is no
  local day, nothing is ever yielded.
\<close>

theorem workDaysGenerator_not_every_start:
  "workDaysGenerator utc 0 (Some (- 30641587200000)) = Some [''999-01-02''] \<and>
   length ''999-01-02'' = 9 \<and>
   workDaysGenerator utc 0 (Some (- 8640000000000000)) = Some [''NaN-NaN-NaN''] \<and>
   workDaysGenerator manila 2 (Some (- 3944491440000)) =
     Some [''1845-01-01'', ''1845-01-01'', ''1845-01-01''] \<and>
   workDaysGenerator apia 0 (Some 1325455200000) = None"
  using year_999 earliest_date manila_repeats apia_never_yields
  by (simp add: workDaysGenerator_def workDaysFrom.simps[of apia 0 0 "Some 1325455200000"])

subsection \<open>\<open>computeAverageVolume\<close>: the averages\<close>

lemma map_of_tallyStock:
  "map_of (tallyStock (k, s) m) = (map_of m)(k \<mapsto> bump (map_of m k) s)"
  by (cases "map_of m k") (simp_all add: tallyStock_eq update_conv')

lemma map_of_fold_day:
  "distinct (map fst day) \<Longrightarrow>
   map_of (fold tallyStock day m) sec =
     (case map_of day sec of None \<Rightarrow> map_of m sec | Some s \<Rightarrow> Some (bump (map_of m sec) s))"
proof (induction day arbitrary: m)
  case Nil
  then show ?case by simp
next
  case (Cons e day)
  obtain k s where e: "e = (k, s)" by (cases e)
  from Cons.prems have d: "distinct (map fst day)" and k: "k \<notin> fst ` set day"
    by (auto simp: e)
  from k have none: "map_of day k = None" by (simp add: map_of_eq_None_iff)
  show ?case
    using Cons.IH[OF d, of "tallyStock (k, s) m"] none
    by (simp add: e map_of_tallyStock split: option.splits)
qed

lemma map_of_fold_all:
  "\<forall>(date, day) \<in> set d. distinct (map fst day) \<Longrightarrow>
   map_of (fold (\<lambda>(date, dayData). fold tallyStock dayData) d m) sec =
     foldl (\<lambda>acc s. Some (bump acc s)) (map_of m sec) (appearances d sec)"
proof (induction d arbitrary: m)
  case Nil
  then show ?case by (simp add: appearances_def List.map_filter_simps)
next
  case (Cons p d)
  obtain date day where p: "p = (date, day)" by (cases p)
  from Cons.prems have dd: "distinct (map fst day)" and rest: "\<forall>(date, day) \<in> set d. distinct (map fst day)"
    by (auto simp: p)
  show ?case
    using Cons.IH[OF rest, of "fold tallyStock day m"] map_of_fold_day[OF dd, of m sec]
    by (cases "map_of day sec") (simp_all add: p appearances_def List.map_filter_simps)
qed

lemma foldl_bump_Some:
  "foldl (\<lambda>acc s. Some (bump acc s)) (Some cur) xs =
     Some \<lparr>totalVolume = totalVolume cur + sum_list (map volume xs), count = count cur + length xs\<rparr>"
  by (induction xs arbitrary: cur) simp_all

lemma foldl_bump_None:
  "xs \<noteq> [] \<Longrightarrow>
   foldl (\<lambda>acc s. Some (bump acc s)) None xs =
     Some \<lparr>totalVolume = sum_list (map volume xs), count = length xs\<rparr>"
  by (cases xs) (simp_all add: foldl_bump_Some)

lemma map_of_setAverages:
  "setAverages m = Inr avgs \<Longrightarrow>
   map_of avgs sec =
     map_option (\<lambda>t. \<lparr>totalVolume = totalVolume t, count = count t,
                       average = totalVolume t sdiv int (count t)\<rparr>) (map_of m sec)"
proof (induction m arbitrary: avgs)
  case Nil
  then show ?case by simp
next
  case (Cons p m)
  obtain k d where p: "p = (k, d)" by (cases p)
  from Cons.prems obtain rest where r: "setAverages m = Inr rest"
    and a: "avgs = (k, \<lparr>totalVolume = totalVolume d, count = count d,
                        average = totalVolume d sdiv int (count d)\<rparr>) # rest"
    by (auto simp: p bigint_div_def split: if_splits sum.splits)
  show ?case using Cons.IH[OF r] by (simp add: a p)
qed

lemma computeAverageVolume_lookup:
  assumes "\<forall>(date, day) \<in> set d. distinct (map fst day)"
    and "computeAverageVolume d = Inr avgs"
  shows "map_of avgs sec =
     (if appearances d sec = [] then None
      else Some \<lparr>totalVolume = sum_list (map volume (appearances d sec)),
                 count = length (appearances d sec),
                 average = sum_list (map volume (appearances d sec)) sdiv
                           int (length (appearances d sec))\<rparr>)"
proof -
  have "map_of (fold (\<lambda>(date, dayData). fold tallyStock dayData) d []) sec =
      (if appearances d sec = [] then None
       else Some \<lparr>totalVolume = sum_list (map volume (appearances d sec)),
                  count = length (appearances d sec)\<rparr>)"
    using map_of_fold_all[OF assms(1), of "[]" sec] by (simp add: foldl_bump_None)
  then show ?thesis
    using map_of_setAverages[of _ avgs sec] assms(2) by (simp add: computeAverageVolume_def)
qed

lemma computeAverageVolume_returns: "\<exists>avgs. computeAverageVolume d = Inr avgs"
  using setAverages_counted[OF counted_tallies] by (auto simp: computeAverageVolume_def)

text \<open>
  Claim C7. For every security that appears on at least one day of the dataset (every day
  being a \<open>Map\<close>, with each security at most once), the entry that \<open>computeAverageVolume\<close>
  returns for it has as its total the sum of the security's volumes over the days on which it
  appears, as its count the number of those days, and as its average the truncating BigInt
  quotient of the two: days without the security add neither to the sum nor to the count. In
  particular a security that appears on exactly two days, with volumes 100 and 300, has the
  average 200.
\<close>

theorem computeAverageVolume_average:
  assumes "\<forall>(date, dayData) \<in> set imoexData. distinct (map fst dayData)"
    and "appearances imoexData sec \<noteq> []"
  shows "\<exists>avgs a. computeAverageVolume imoexData = Inr avgs \<and> map_of avgs sec = Some a \<and>
           totalVolume a = sum_list (map volume (appearances imoexData sec)) \<and>
           count a = length (appearances imoexData sec) \<and>
           average a = sum_list (map volume (appearances imoexData sec)) sdiv
                       int (length (appearances imoexData sec)) \<and>
           (map volume (appearances imoexData sec) = [100, 300] \<longrightarrow> average a = 200)"
proof -
  obtain avgs where a: "computeAverageVolume imoexData = Inr avgs"
    using computeAverageVolume_returns by blast
  have "(100 + 300) sdiv (2::int) = 200" by (simp add: signed_divide_int_def)
  then show ?thesis
    using computeAverageVolume_lookup[OF assms(1) a, of sec] assms(2) a by auto
qed

theorem computeAverageVolume_average_witness:
  "length window10 = 10 \<and> map volume (appearances window10 (Txt ''AAA'')) = [100, 300] \<and>
   (\<exists>avgs a. computeAverageVolume window10 = Inr avgs \<and> map_of avgs (Txt ''AAA'') = Some a \<and>
      totalVolume a = 400 \<and> count a = 2 \<and> average a = 200)"
proof -
  have h1: "\<forall>(date, dayData) \<in> set window10. distinct (map fst dayData)"
    by (simp add: window10_def)
  have h2: "map volume (appearances window10 (Txt ''AAA'')) = [100, 300]"
    by (simp add: window10_def appearances_def List.map_filter_simps)
  then have h3: "appearances window10 (Txt ''AAA'') \<noteq> []" by auto
  have h4: "length window10 = 10" by (simp add: window10_def)
  have h5: "length (appearances window10 (Txt ''AAA'')) = 2"
    using h2 by (metis length_map list.size(3,4) One_nat_def Suc_1 add.left_neutral plus_1_eq_Suc)
  show ?thesis
    using computeAverageVolume_average[OF h1 h3] h2 h4 h5 by auto
qed

subsection \<open>Rounding to a double\<close>

lemma floor_rat_numeral: "\<lfloor>(numeral a :: rat) / numeral b\<rfloor> = numeral a div numeral b"
  using floor_divide_of_int_eq[of "numeral a" "numeral b", where ?'a = rat] by simp

lemma two_powi_pos: "0 < (2::rat) powi e"
  by simp

lemma two_powi_Suc: "(2::rat) powi (e + 1) = 2 * 2 powi e"
  by (simp add: power_int_add)

lemma two_powi_pred: "(2::rat) powi (e - 1) = 2 powi e / 2"
  by (simp add: power_int_diff)

lemma bitlen_powi_bounds:
  assumes "0 < p"
  shows "(2::rat) powi (bitlen p - 1) \<le> of_int p \<and> of_int p < (2::rat) powi (bitlen p)"
proof -
  have b1: "1 \<le> bitlen p" using assms by (simp add: bitlen_alt_def)
  from bitlen_bounds[OF assms] have lo: "2 ^ nat (bitlen p - 1) \<le> p" and hi: "p < 2 ^ nat (bitlen p)"
    by simp_all
  have "(of_int (2 ^ nat (bitlen p - 1)) :: rat) \<le> of_int p" using lo by (simp only: of_int_le_iff)
  then have l: "(2::rat) ^ nat (bitlen p - 1) \<le> of_int p" by simp
  have "(of_int p :: rat) < of_int (2 ^ nat (bitlen p))" using hi by (simp only: of_int_less_iff)
  then have h: "of_int p < (2::rat) ^ nat (bitlen p)" by simp
  show ?thesis using l h b1 by (simp add: power_int_def)
qed

lemma floorlog2_bounds:
  assumes "x \<noteq> 0"
  shows "2 powi (floorlog2 x) \<le> \<bar>x\<bar> \<and> \<bar>x\<bar> < 2 powi (floorlog2 x + 1)"
proof -
  obtain p q where pq: "quotient_of \<bar>x\<bar> = (p, q)" by (cases "quotient_of \<bar>x\<bar>")
  have q: "0 < q" using quotient_of_denom_pos[OF pq] .
  have x: "\<bar>x\<bar> = of_int p / of_int q" using quotient_of_div[OF pq] .
  have "0 < \<bar>x\<bar>" using assms by simp
  then have "0 < (of_int p :: rat) / of_int q" using x by simp
  then have p: "0 < p" using q by (simp add: zero_less_divide_iff)
  define e where "e = bitlen p - bitlen q"
  define P where "P = (of_int p :: rat)"
  define Q where "Q = (of_int q :: rat)"
  have P: "0 < P" and Q: "0 < Q" using p q by (simp_all add: P_def Q_def)
  have bp: "2 powi (bitlen p - 1) \<le> P" "P < 2 powi (bitlen p)"
    using bitlen_powi_bounds[OF p] by (simp_all add: P_def)
  have bq: "2 powi (bitlen q - 1) \<le> Q" "Q < 2 powi (bitlen q)"
    using bitlen_powi_bounds[OF q] by (simp_all add: Q_def)
  have xe: "\<bar>x\<bar> = P / Q" using x by (simp add: P_def Q_def)
  have "e - 1 = bitlen p - 1 - bitlen q"
    by (simp add: e_def)
  then have "2 powi (e - 1) = (2::rat) powi (bitlen p - 1) / 2 powi (bitlen q)"
    by (simp add: power_int_diff)
  also have "\<dots> \<le> P / 2 powi (bitlen q)"
    using bp(1) by (simp add: divide_right_mono)
  also have "\<dots> \<le> P / Q"
    using bq(2) P Q by (simp add: frac_le)
  finally have lo: "2 powi (e - 1) \<le> \<bar>x\<bar>" using xe by simp
  have "P / Q < 2 powi (bitlen p) / Q"
    using bp(2) Q by (simp add: divide_strict_right_mono)
  also have "\<dots> \<le> 2 powi (bitlen p) / 2 powi (bitlen q - 1)"
    using bq(1) by (intro divide_left_mono) (simp_all add: Q mult_pos_pos)
  also have "\<dots> = 2 powi (bitlen p - (bitlen q - 1))"
    by (simp add: power_int_diff)
  also have "bitlen p - (bitlen q - 1) = e + 1"
    by (simp add: e_def)
  finally have hi: "\<bar>x\<bar> < 2 powi (e + 1)" using xe by simp
  have fl: "floorlog2 x = (if 2 powi e \<le> \<bar>x\<bar> then e else e - 1)"
    by (simp add: floorlog2_def pq e_def Let_def)
  show ?thesis
  proof (cases "2 powi e \<le> \<bar>x\<bar>")
    case True
    then show ?thesis using fl hi by simp
  next
    case False
    then show ?thesis using fl lo by simp
  qed
qed

lemma floorlog2_eqI:
  assumes "2 powi e \<le> \<bar>x\<bar>" and "\<bar>x\<bar> < 2 powi (e + 1)"
  shows "floorlog2 x = e"
proof -
  have "0 < \<bar>x\<bar>" using assms(1) two_powi_pos[of e] by linarith
  then have nz: "x \<noteq> 0" by simp
  define f where "f = floorlog2 x"
  have b: "2 powi f \<le> \<bar>x\<bar>" "\<bar>x\<bar> < 2 powi (f + 1)"
    using floorlog2_bounds[OF nz] by (simp_all add: f_def)
  have "\<not> f < e"
  proof
    assume "f < e"
    then have "(2::rat) powi (f + 1) \<le> 2 powi e" by (intro power_int_increasing) simp_all
    then show False using b(2) assms(1) by linarith
  qed
  moreover have "\<not> e < f"
  proof
    assume "e < f"
    then have "(2::rat) powi (e + 1) \<le> 2 powi f" by (intro power_int_increasing) simp_all
    then show False using b(1) assms(2) by linarith
  qed
  ultimately show ?thesis by (simp add: f_def)
qed

lemma toDouble_eval:
  assumes "2 powi e \<le> \<bar>x\<bar>" and "\<bar>x\<bar> < 2 powi (e + 1)"
    and "of_int (roundTiesToEven (x / 2 powi (max (e - 52) (- 1074)))) *
           2 powi (max (e - 52) (- 1074)) = r"
    and "\<bar>r\<bar> < 2 ^ 1024"
  shows "toDouble x = Fin r"
proof -
  have "0 < \<bar>x\<bar>" using assms(1) two_powi_pos[of e] by linarith
  then have nz: "x \<noteq> 0" by simp
  have "floorlog2 x = e" using assms(1,2) by (rule floorlog2_eqI)
  then have "ulp x = 2 powi (max (e - 52) (- 1074))" by (simp add: ulp_def)
  moreover have "\<not> 2 ^ 1024 \<le> r" "\<not> r \<le> - (2 ^ 1024)"
    using assms(4) by (simp_all only: abs_less_iff not_le) simp_all
  ultimately show ?thesis using nz assms(3) by (simp only: toDouble_def Let_def if_False)
qed

lemma roundTiesToEven_of_int: "roundTiesToEven (of_int n) = n"
  by (simp add: roundTiesToEven_def)

lemma roundTiesToEven_ge: "of_int a \<le> x \<Longrightarrow> a \<le> roundTiesToEven x"
proof -
  assume "of_int a \<le> x"
  then have "a \<le> \<lfloor>x\<rfloor>" by (simp add: le_floor_iff)
  then show ?thesis by (simp add: roundTiesToEven_def Let_def)
qed

lemma roundTiesToEven_less: "x < of_int b - 1 / 2 \<Longrightarrow> roundTiesToEven x < b"
proof -
  assume x: "x < of_int b - 1 / 2"
  then have "x < of_int b" by linarith
  then have fb: "\<lfloor>x\<rfloor> < b" by (simp add: floor_less_iff)
  show ?thesis
  proof (cases "\<lfloor>x\<rfloor> = b - 1")
    case True
    then have "x - of_int \<lfloor>x\<rfloor> < 1 / 2" using x by simp
    then show ?thesis using True by (simp add: roundTiesToEven_def Let_def)
  next
    case False
    then have "\<lfloor>x\<rfloor> + 1 < b" using fb by linarith
    then show ?thesis by (simp add: roundTiesToEven_def Let_def)
  qed
qed

lemma two_powi_less_imp: "(2::rat) powi a < 2 powi b \<Longrightarrow> a < b"
proof (rule ccontr)
  assume l: "(2::rat) powi a < 2 powi b" and "\<not> a < b"
  then have "b \<le> a" by simp
  then have "(2::rat) powi b \<le> 2 powi a" by (intro power_int_increasing) simp_all
  then show False using l by linarith
qed

lemma two_powi_neg: "e \<le> 0 \<Longrightarrow> (2::rat) powi e = 1 / 2 ^ nat (- e)"
  by (auto simp: power_int_def field_simps)

lemma toDouble_int_exact:
  assumes "\<bar>n\<bar> < 2 ^ 53"
  shows "toDouble (of_int n) = Fin (of_int n)"
proof (cases "n = 0")
  case True
  then show ?thesis by (simp add: toDouble_def)
next
  case False
  define x where "x = (of_int n :: rat)"
  define e where "e = floorlog2 x"
  have nz: "x \<noteq> 0" using False by (simp add: x_def)
  have b: "2 powi e \<le> \<bar>x\<bar>" "\<bar>x\<bar> < 2 powi (e + 1)"
    using floorlog2_bounds[OF nz] by (simp_all add: e_def)
  have "\<bar>x\<bar> = of_int \<bar>n\<bar>" by (simp add: x_def)
  also have "\<dots> < of_int (2 ^ 53)" using assms by (simp only: of_int_less_iff)
  finally have up: "\<bar>x\<bar> < 2 powi 53" by simp
  have "1 \<le> \<bar>n\<bar>" using False by simp
  then have "(of_int 1 :: rat) \<le> of_int \<bar>n\<bar>" by (simp only: of_int_le_iff)
  then have lo: "2 powi 0 \<le> \<bar>x\<bar>" by (simp add: x_def)
  have e1: "e < 53" using b(1) up by (intro two_powi_less_imp) linarith
  have e0: "0 < e + 1" using b(2) lo by (intro two_powi_less_imp) linarith
  have m: "max (e - 52) (- 1074) = e - 52" using e0 by simp
  have u: "ulp x = 1 / 2 ^ nat (52 - e)"
    using e1 by (simp add: ulp_def e_def[symmetric] m two_powi_neg)
  have "x / ulp x = of_int (n * 2 ^ nat (52 - e))" unfolding u by (simp add: x_def)
  then have "roundTiesToEven (x / ulp x) = n * 2 ^ nat (52 - e)"
    by (simp only: roundTiesToEven_of_int)
  then have r: "of_int (roundTiesToEven (x / ulp x)) * ulp x = x"
    unfolding u by (simp add: x_def)
  have "\<bar>x\<bar> < 2 ^ 1024" using up by simp
  then have "\<not> 2 ^ 1024 \<le> x" "\<not> x \<le> - (2 ^ 1024)"
    by (simp_all only: abs_less_iff not_le) simp_all
  then show ?thesis using nz r unfolding x_def[symmetric]
    by (simp only: toDouble_def Let_def if_False)
qed

lemma trunc_div_million:
  assumes "0 \<le> n" and "n < 2 ^ 53"
  shows "Math_trunc (js_div_lit (Fin (of_int n)) 1000000) = Fin (of_int (n div 1000000))"
proof (cases "n = 0")
  case True
  then show ?thesis by (simp add: toDouble_def)
next
  case False
  define x where "x = (of_int n :: rat) / 1000000"
  define e where "e = floorlog2 x"
  define m where "m = n div 1000000"
  define f where "f = n mod 1000000"
  have n: "n = 1000000 * m + f" and f: "0 \<le> f" "f < 1000000"
    by (simp_all add: m_def f_def)
  have n1: "1 \<le> n" using False assms(1) by simp
  have xpos: "0 < x" using n1 by (simp add: x_def)
  then have nz: "x \<noteq> 0" by simp
  have b: "2 powi e \<le> \<bar>x\<bar>" "\<bar>x\<bar> < 2 powi (e + 1)"
    using floorlog2_bounds[OF nz] by (simp_all add: e_def)
  have "(of_int n :: rat) < of_int (2 ^ 53)" using assms(2) by (simp only: of_int_less_iff)
  then have "x < 2 ^ 53 / 1000000" by (simp add: x_def)
  also have "\<dots> < (2::rat) powi 34" by simp
  finally have up: "\<bar>x\<bar> < 2 powi 34" using xpos by simp
  have "(of_int 1 :: rat) \<le> of_int n" using n1 by (simp only: of_int_le_iff)
  then have "1 / 1000000 \<le> x" by (simp add: x_def)
  moreover have "(2::rat) powi (- 20) \<le> 1 / 1000000" by simp
  ultimately have lo: "2 powi (- 20) \<le> \<bar>x\<bar>" using xpos by linarith
  have e1: "e < 34" using b(1) up by (intro two_powi_less_imp) linarith
  have e0: "- 20 < e + 1" using b(2) lo by (intro two_powi_less_imp) linarith
  have mx: "max (e - 52) (- 1074) = e - 52" using e0 by simp
  define K where "K = (2::int) ^ nat (52 - e)"
  have u: "ulp x = 1 / of_int K"
    using e1 by (simp add: ulp_def e_def[symmetric] mx two_powi_neg K_def)
  have "(2::int) ^ 19 \<le> 2 ^ nat (52 - e)" using e1 by (intro power_increasing) simp_all
  then have K19: "524288 \<le> K" by (simp add: K_def)
  then have Kpos: "0 < (of_int K :: rat)" by simp
  define y where "y = x / ulp x"
  have y: "y = x * of_int K" unfolding y_def u by simp
  define R where "R = roundTiesToEven y"
  have xm: "x = of_int m + of_int f / 1000000" by (simp add: x_def n)
  have "of_int m \<le> x" using f(1) by (simp add: xm)
  then have "of_int m * of_int K \<le> y" using Kpos by (simp add: y)
  then have "of_int (m * K) \<le> y" by simp
  then have lower: "m * K \<le> R" unfolding R_def by (rule roundTiesToEven_ge)
  have "f \<le> 999999" using f(2) by simp
  then have "(of_int f :: rat) \<le> of_int 999999" by (simp only: of_int_le_iff)
  then have "of_int f \<le> (999999::rat)" by simp
  then have "x \<le> of_int m + 1 - 1 / 1000000" by (simp add: xm)
  then have "y \<le> (of_int m + 1 - 1 / 1000000) * of_int K"
    using Kpos by (simp add: y)
  also have "\<dots> = of_int ((m + 1) * K) - of_int K / 1000000" by (simp add: algebra_simps)
  also have "\<dots> < of_int ((m + 1) * K) - 1 / 2"
  proof -
    have "(of_int 524288 :: rat) \<le> of_int K" using K19 by (simp only: of_int_le_iff)
    then have "(1::rat) / 2 < of_int K / 1000000" by simp
    then show ?thesis by linarith
  qed
  finally have upper: "R < (m + 1) * K" unfolding R_def by (rule roundTiesToEven_less)
  define r where "r = (of_int R :: rat) / of_int K"
  have rm: "of_int m \<le> r"
  proof -
    have "(of_int (m * K) :: rat) \<le> of_int R" using lower by (simp only: of_int_le_iff)
    then show ?thesis using Kpos by (simp add: r_def pos_le_divide_eq)
  qed
  have rm1: "r < of_int m + 1"
  proof -
    have "(of_int R :: rat) < of_int ((m + 1) * K)" using upper by (simp only: of_int_less_iff)
    then show ?thesis using Kpos by (simp add: r_def pos_divide_less_eq)
  qed
  have m0: "0 \<le> m" using assms(1) by (simp add: m_def pos_imp_zdiv_nonneg_iff)
  have mlt: "m < 2 ^ 53" using assms(2) n f(1) m0 by linarith
  have "(of_int 0 :: rat) \<le> of_int m" using m0 by (simp only: of_int_le_iff)
  then have r0: "0 \<le> r" using rm by simp
  have "(of_int m :: rat) + 1 \<le> 2 ^ 53"
  proof -
    have "m + 1 \<le> 2 ^ 53" using mlt by simp
    then have "(of_int (m + 1) :: rat) \<le> of_int (2 ^ 53)" by (simp only: of_int_le_iff)
    then show ?thesis by simp
  qed
  then have "r < 2 ^ 53" using rm1 by linarith
  also have "(2::rat) ^ 53 < 2 ^ 1024" by simp
  finally have rbig: "\<not> 2 ^ 1024 \<le> r" "\<not> r \<le> - (2 ^ 1024)" using r0 by simp_all
  have rr: "of_int (roundTiesToEven (x / ulp x)) * ulp x = r"
    unfolding r_def R_def y_def u by simp
  have td: "toDouble x = Fin r"
    using nz rbig rr by (simp only: toDouble_def Let_def if_False)
  have "\<lfloor>r\<rfloor> = m" using rm rm1 by (simp add: floor_unique)
  then show ?thesis using td r0 by (simp add: x_def[symmetric] m_def)
qed

subsection \<open>\<open>computeHotStocks\<close>\<close>

lemma set_map_filter_eq: "set (List.map_filter f xs) = {y. \<exists>x \<in> set xs. f x = Some y}"
  by (induction xs) (auto split: option.splits)

lemma divideBigInt_returns: "b \<noteq> 0 \<Longrightarrow> \<exists>r. divideBigInt a b = Inr r"
  by (simp add: divideBigInt_def bigint_div_def)

lemma update_fresh: "k \<notin> fst ` set al \<Longrightarrow> AList.update k v al = al @ [(k, v)]"
  by (induction al) auto

lemma hotStockStep_eq:
  "hotStockStep avgs date e hs =
     Inr (case hotEntry avgs e of
            None \<Rightarrow> hs
          | Some h \<Rightarrow> AList.update date ((case map_of hs date of None \<Rightarrow> [] | Some arr \<Rightarrow> arr) @ [h]) hs)"
proof -
  obtain sec st where e: "e = (sec, st)" by (cases e)
  show ?thesis
  proof (cases "map_of avgs sec")
    case None
    then show ?thesis by (simp add: hotStockStep_def hotEntry_def e)
  next
    case (Some a)
    show ?thesis
    proof (cases "average a = 0")
      case True
      then show ?thesis using Some by (simp add: hotStockStep_def hotEntry_def e)
    next
      case False
      then obtain r where r: "divideBigInt (volume st) (average a) = Inr r"
        using divideBigInt_returns by blast
      show ?thesis using Some False r
        by (cases "map_of hs date") (simp_all add: hotStockStep_def hotEntry_def e update_conv')
    qed
  qed
qed

lemma hotStocksDay_eq:
  "hotStocksDay avgs date day hs =
     Inr (if hotEntries avgs day = [] then hs
          else AList.update date
                 ((case map_of hs date of None \<Rightarrow> [] | Some arr \<Rightarrow> arr) @ hotEntries avgs day) hs)"
proof (induction day arbitrary: hs)
  case Nil
  then show ?case by (simp add: hotEntries_def List.map_filter_simps)
next
  case (Cons e day)
  show ?case
  proof (cases "hotEntry avgs e")
    case None
    then show ?thesis
      using Cons.IH[of hs] by (simp add: hotStockStep_eq hotEntries_def List.map_filter_simps)
  next
    case (Some h)
    then show ?thesis
      using Cons.IH[of "AList.update date ((case map_of hs date of None \<Rightarrow> [] | Some arr \<Rightarrow> arr) @ [h]) hs"]
      by (simp add: hotStockStep_eq hotEntries_def List.map_filter_simps update_conv')
  qed
qed

lemma hotStocksAll_eq:
  "distinct (map fst d) \<Longrightarrow> fst ` set d \<inter> fst ` set hs = {} \<Longrightarrow>
   hotStocksAll avgs d hs =
     Inr (hs @ List.map_filter
                 (\<lambda>(date, day). if hotEntries avgs day = [] then None
                                 else Some (date, hotEntries avgs day)) d)"
proof (induction d arbitrary: hs)
  case Nil
  then show ?case by (simp add: List.map_filter_simps)
next
  case (Cons p d)
  obtain date day where p: "p = (date, day)" by (cases p)
  from Cons.prems have dd: "distinct (map fst d)" and nd: "date \<notin> fst ` set d"
    and nh: "date \<notin> fst ` set hs" and dis: "fst ` set d \<inter> fst ` set hs = {}"
    by (auto simp: p)
  have none: "map_of hs date = None" using nh by (simp add: map_of_eq_None_iff)
  show ?case
  proof (cases "hotEntries avgs day = []")
    case True
    then show ?thesis
      using Cons.IH[OF dd dis] by (simp add: p hotStocksDay_eq List.map_filter_simps)
  next
    case False
    have dis': "fst ` set d \<inter> fst ` set (hs @ [(date, hotEntries avgs day)]) = {}"
      using dis nd by auto
    show ?thesis
      using False none Cons.IH[OF dd dis'] update_fresh[OF nh]
      by (simp add: p hotStocksDay_eq List.map_filter_simps)
  qed
qed

lemma computeHotStocks_eq:
  "distinct (map fst d) \<Longrightarrow>
   computeHotStocks d avgs =
     Inr (List.map_filter
            (\<lambda>(date, day). if hotEntries avgs day = [] then None
                            else Some (date, hotEntries avgs day)) d)"
  using hotStocksAll_eq[of d "[]" avgs] by (simp add: computeHotStocks_def)

lemma map_of_hot:
  "distinct (map fst d) \<Longrightarrow> (date, day) \<in> set d \<Longrightarrow>
   map_of (List.map_filter
            (\<lambda>(date, day). if hotEntries avgs day = [] then None
                            else Some (date, hotEntries avgs day)) d) date =
     (if hotEntries avgs day = [] then None else Some (hotEntries avgs day))"
proof (induction d)
  case Nil
  then show ?case by simp
next
  case (Cons p d)
  obtain date' day' where p: "p = (date', day')" by (cases p)
  show ?case
  proof (cases "date' = date")
    case True
    then have dy: "day' = day" using Cons.prems by (force simp: p)
    have nd: "date \<notin> fst ` set d" using Cons.prems True by (simp add: p)
    have "map_of (List.map_filter
            (\<lambda>(date, day). if hotEntries avgs day = [] then None
                            else Some (date, hotEntries avgs day)) d) date = None"
      using nd by (force simp: map_of_eq_None_iff set_map_filter_eq split: if_splits)
    then show ?thesis using True dy by (simp add: p List.map_filter_simps)
  next
    case False
    then have "(date, day) \<in> set d" "distinct (map fst d)" using Cons.prems by (auto simp: p)
    then show ?thesis using Cons.IH False by (simp add: p List.map_filter_simps)
  qed
qed

lemma hotEntries_member:
  "h \<in> set (hotEntries avgs day) \<longleftrightarrow> (\<exists>e \<in> set day. hotEntry avgs e = Some h)"
  by (auto simp: hotEntries_def set_map_filter_eq)

lemma hotEntry_Some_iff:
  "hotEntry avgs (sec, st) = Some h \<longleftrightarrow>
     (\<exists>a r. map_of avgs sec = Some a \<and> average a \<noteq> 0 \<and> divideBigInt (volume st) (average a) = Inr r \<and>
        h = \<lparr>secId = sec, ratio = r, turnoverMln = Math_trunc (js_div_lit (turnover st) 1000000)\<rparr>)"
  by (auto simp: hotEntry_def split: option.splits sum.splits)

lemma appearances_nonempty:
  "(date, day) \<in> set d \<Longrightarrow> (sec, st) \<in> set day \<Longrightarrow> appearances d sec \<noteq> []"
proof -
  assume m: "(date, day) \<in> set d" "(sec, st) \<in> set day"
  then have "map_of day sec \<noteq> None"
    by (metis map_of_eq_None_iff fst_conv image_eqI)
  then obtain s where "map_of day sec = Some s" by blast
  then have "s \<in> set (appearances d sec)"
    using m(1) by (force simp: appearances_def set_map_filter_eq)
  then show ?thesis by auto
qed

text \<open>
  Claim C1. For every dataset (a \<open>Map\<close> of dates to \<open>Map\<close>s of securities) and the averages
  computed from it, \<open>computeHotStocks\<close> returns, and for every record of every day the
  security of the record has an average, and an entry for the security is listed under the
  date if and only if that average is not zero. When it is not zero, the entry listed is the
  one made from the record: its security, its ratio \<open>divideBigInt(volume, average)\<close> whatever
  the value of the ratio, and its turnover in millions.
\<close>

theorem computeHotStocks_emits_iff_average_nonzero:
  assumes "distinct (map fst imoexData)"
    and "\<forall>(date, dayData) \<in> set imoexData. distinct (map fst dayData)"
    and "computeAverageVolume imoexData = Inr averageVolume"
  shows "\<exists>hot. computeHotStocks imoexData averageVolume = Inr hot \<and>
           (\<forall>date dayData sec stockData.
              (date, dayData) \<in> set imoexData \<and> (sec, stockData) \<in> set dayData \<longrightarrow>
              (\<exists>avg. map_of averageVolume sec = Some avg \<and>
                 ((\<exists>arr h. map_of hot date = Some arr \<and> h \<in> set arr \<and> secId h = sec)
                  \<longleftrightarrow> average avg \<noteq> 0) \<and>
                 (average avg \<noteq> 0 \<longrightarrow>
                  (\<exists>arr r. map_of hot date = Some arr \<and>
                     divideBigInt (volume stockData) (average avg) = Inr r \<and>
                     \<lparr>secId = sec, ratio = r,
                      turnoverMln = Math_trunc (js_div_lit (turnover stockData) 1000000)\<rparr>
                     \<in> set arr))))"
proof -
  define hot where "hot = List.map_filter
            (\<lambda>(date, day). if hotEntries averageVolume day = [] then None
                            else Some (date, hotEntries averageVolume day)) imoexData"
  have eq: "computeHotStocks imoexData averageVolume = Inr hot"
    using computeHotStocks_eq[OF assms(1)] by (simp add: hot_def)
  have main: "\<exists>avg. map_of averageVolume sec = Some avg \<and>
                 ((\<exists>arr h. map_of hot date = Some arr \<and> h \<in> set arr \<and> secId h = sec)
                  \<longleftrightarrow> average avg \<noteq> 0) \<and>
                 (average avg \<noteq> 0 \<longrightarrow>
                  (\<exists>arr r. map_of hot date = Some arr \<and>
                     divideBigInt (volume stockData) (average avg) = Inr r \<and>
                     \<lparr>secId = sec, ratio = r,
                      turnoverMln = Math_trunc (js_div_lit (turnover stockData) 1000000)\<rparr>
                     \<in> set arr))"
    if m: "(date, dayData) \<in> set imoexData" "(sec, stockData) \<in> set dayData"
    for date dayData sec stockData
  proof -
    have "appearances imoexData sec \<noteq> []" using m by (rule appearances_nonempty)
    then obtain avg where avg: "map_of averageVolume sec = Some avg"
      using computeAverageVolume_lookup[OF assms(2,3), of sec] by auto
    have look: "map_of hot date =
        (if hotEntries averageVolume dayData = [] then None
         else Some (hotEntries averageVolume dayData))"
      unfolding hot_def using assms(1) m(1) by (rule map_of_hot)
    have fwd: "average avg \<noteq> 0"
      if "map_of hot date = Some arr" "h \<in> set arr" "secId h = sec" for arr h
    proof -
      from that look have "h \<in> set (hotEntries averageVolume dayData)"
        by (auto split: if_splits)
      then obtain e where e: "e \<in> set dayData" "hotEntry averageVolume e = Some h"
        using hotEntries_member by blast
      obtain sec' st' where e': "e = (sec', st')" by (cases e)
      from e(2) that(3) show ?thesis
        unfolding e' hotEntry_Some_iff using avg by auto
    qed
    have bwd: "\<exists>arr r. map_of hot date = Some arr \<and>
                     divideBigInt (volume stockData) (average avg) = Inr r \<and>
                     \<lparr>secId = sec, ratio = r,
                      turnoverMln = Math_trunc (js_div_lit (turnover stockData) 1000000)\<rparr>
                     \<in> set arr"
      if nz: "average avg \<noteq> 0"
    proof -
      obtain r where r: "divideBigInt (volume stockData) (average avg) = Inr r"
        using divideBigInt_returns[OF nz] by blast
      define h where "h = \<lparr>secId = sec, ratio = r,
                      turnoverMln = Math_trunc (js_div_lit (turnover stockData) 1000000)\<rparr>"
      have "hotEntry averageVolume (sec, stockData) = Some h"
        unfolding hotEntry_Some_iff using avg nz r by (simp add: h_def)
      then have "h \<in> set (hotEntries averageVolume dayData)"
        using m(2) hotEntries_member by blast
      then show ?thesis using look r unfolding h_def by (auto split: if_splits)
    qed
    have "(\<exists>arr h. map_of hot date = Some arr \<and> h \<in> set arr \<and> secId h = sec)
            \<longleftrightarrow> average avg \<noteq> 0"
    proof
      assume "\<exists>arr h. map_of hot date = Some arr \<and> h \<in> set arr \<and> secId h = sec"
      then show "average avg \<noteq> 0" using fwd by blast
    next
      assume "average avg \<noteq> 0"
      from bwd[OF this] obtain arr r where
        "map_of hot date = Some arr"
        "\<lparr>secId = sec, ratio = r,
          turnoverMln = Math_trunc (js_div_lit (turnover stockData) 1000000)\<rparr> \<in> set arr"
        by blast
      then show "\<exists>arr h. map_of hot date = Some arr \<and> h \<in> set arr \<and> secId h = sec"
        by (intro exI[of _ arr] exI[of _ "\<lparr>secId = sec, ratio = r,
          turnoverMln = Math_trunc (js_div_lit (turnover stockData) 1000000)\<rparr>"]) simp
    qed
    then show ?thesis using avg bwd by blast
  qed
  show ?thesis
    using eq main by blast
qed

lemma window2_averages:
  "computeAverageVolume window2 =
     Inr [(Txt ''AAA'', \<lparr>totalVolume = 500, count = 2, average = 250\<rparr>),
          (Txt ''ZZZ'', \<lparr>totalVolume = 0, count = 2, average = 0\<rparr>)]"
  by (simp add: computeAverageVolume_def window2_def tallyStock_eq bigint_div_def
        signed_divide_int_def)

theorem computeHotStocks_emits_iff_average_nonzero_witness:
  "\<exists>avgs hot.
     computeAverageVolume window2 = Inr avgs \<and> computeHotStocks window2 avgs = Inr hot \<and>
     (\<exists>arr h. map_of hot ''2026-10-30'' = Some arr \<and> h \<in> set arr \<and> secId h = Txt ''AAA'') \<and>
     \<not> (\<exists>arr h. map_of hot ''2026-10-30'' = Some arr \<and> h \<in> set arr \<and> secId h = Txt ''ZZZ'')"
proof -
  define avgs where "avgs = [(Txt ''AAA'', \<lparr>totalVolume = 500, count = 2, average = 250\<rparr>),
          (Txt ''ZZZ'', \<lparr>totalVolume = 0, count = 2, average = 0\<rparr>)]"
  have h1: "distinct (map fst window2)" by (simp add: window2_def)
  have h2: "\<forall>(date, dayData) \<in> set window2. distinct (map fst dayData)"
    by (simp add: window2_def)
  have h3: "computeAverageVolume window2 = Inr avgs"
    using window2_averages by (simp add: avgs_def)
  from computeHotStocks_emits_iff_average_nonzero[OF h1 h2 h3]
  obtain hot where hot: "computeHotStocks window2 avgs = Inr hot"
    and all: "\<forall>date dayData sec stockData.
        (date, dayData) \<in> set window2 \<and> (sec, stockData) \<in> set dayData \<longrightarrow>
        (\<exists>avg. map_of avgs sec = Some avg \<and>
          ((\<exists>arr h. map_of hot date = Some arr \<and> h \<in> set arr \<and> secId h = sec)
           \<longleftrightarrow> average avg \<noteq> 0) \<and>
          (average avg \<noteq> 0 \<longrightarrow>
            (\<exists>arr r. map_of hot date = Some arr \<and>
               divideBigInt (volume stockData) (average avg) = Inr r \<and>
               \<lparr>secId = sec, ratio = r,
                turnoverMln = Math_trunc (js_div_lit (turnover stockData) 1000000)\<rparr>
               \<in> set arr)))"
    by (elim exE conjE)
  have iff: "\<exists>avg. map_of avgs sec = Some avg \<and>
          ((\<exists>arr h. map_of hot date = Some arr \<and> h \<in> set arr \<and> secId h = sec)
           \<longleftrightarrow> average avg \<noteq> 0)"
    if "(date, dayData) \<in> set window2" "(sec, stockData) \<in> set dayData"
    for date dayData sec stockData
    using all[rule_format, of date dayData sec stockData] that by blast
  have a: "\<exists>arr h. map_of hot ''2026-10-30'' = Some arr \<and> h \<in> set arr \<and> secId h = Txt ''AAA''"
    using iff[of "''2026-10-30''" _ "Txt ''AAA''" "\<lparr>volume = 100, turnover = Fin 2500000\<rparr>"]
    by (simp add: window2_def avgs_def)
  have z: "\<not> (\<exists>arr h. map_of hot ''2026-10-30'' = Some arr \<and> h \<in> set arr \<and> secId h = Txt ''ZZZ'')"
    using iff[of "''2026-10-30''" _ "Txt ''ZZZ''" "\<lparr>volume = 0, turnover = Fin 0\<rparr>"]
    by (simp add: window2_def avgs_def)
  show ?thesis using h3 hot a z by blast
qed

subsection \<open>The error of rounding to a double\<close>



subsection \<open>\<open>divideBigInt\<close>: the value\<close>


lemma floor_rat_half: "\<lfloor>(1::rat) / 2\<rfloor> = 0"
  by (rule floor_unique) simp_all








subsection \<open>Volume and turnover of a row\<close>

lemma hotStockStep_pushes:
  assumes "map_of avgs sec = Some a" and "average a \<noteq> 0"
  shows "\<exists>r. divideBigInt (volume st) (average a) = Inr r \<and>
           hotStockStep avgs date (sec, st) hs =
             Inr (AList.update date
                    ((case map_of hs date of None \<Rightarrow> [] | Some arr \<Rightarrow> arr) @
                     [\<lparr>secId = sec, ratio = r,
                       turnoverMln = Math_trunc (js_div_lit (turnover st) 1000000)\<rparr>]) hs)"
proof -
  obtain r where r: "divideBigInt (volume st) (average a) = Inr r"
    using divideBigInt_returns[OF assms(2)] by blast
  have "hotEntry avgs (sec, st) =
          Some \<lparr>secId = sec, ratio = r,
                turnoverMln = Math_trunc (js_div_lit (turnover st) 1000000)\<rparr>"
    unfolding hotEntry_Some_iff using assms r by simp
  then show ?thesis using r by (simp add: hotStockStep_eq)
qed

lemma js_mul_int_exact:
  assumes "0 \<le> V" and "0 \<le> C" and "V * C < 2 ^ 53"
  shows "js_mul (Fin (of_int V)) (Fin (of_int C)) = Fin (of_int (V * C))"
proof -
  have "0 \<le> V * C" using assms(1,2) by simp
  then have "\<bar>V * C\<bar> < 2 ^ 53" using assms(3) by simp
  from toDouble_int_exact[OF this] show ?thesis by simp
qed

lemma toDouble_numeral_exact:
  "(numeral k :: int) < 2 ^ 53 \<Longrightarrow> toDouble (numeral k) = Fin (numeral k)"
  using toDouble_int_exact[of "numeral k"] by simp

lemma toDouble_one: "toDouble 1 = Fin 1"
  using toDouble_int_exact[of 1] by simp

lemma divideBigInt_same: "divideBigInt 99999999 99999999 = Inr (Fin 1)"
proof -
  have a: "bigint_div (99999999 * 100) 99999999 = Inr 100"
    by (simp add: bigint_div_def signed_divide_int_def)
  have b: "Number_of_BigInt 100 = Fin 100"
    by (simp add: Number_of_BigInt_def toDouble_numeral_exact)
  have c: "js_div_lit (Fin 100) 100 = Fin 1"
    by (simp add: toDouble_one)
  have d: "js_mul (Fin 1) (Fin 10) = Fin 10"
    by (simp add: toDouble_numeral_exact)
  have e: "Math_round (Fin 10) = Fin 10"
    by (simp add: floor_rat_numeral)
  have f: "js_div_lit (Fin 10) 10 = Fin 1"
    by (simp add: toDouble_one)
  show ?thesis
    by (simp only: divideBigInt_def a b c d e f Let_def sum.case)
qed

lemma toDouble_tie: "toDouble 9999999999999999 = Fin 10000000000000000"
  by (rule toDouble_eval[where e = 53]) (simp_all add: roundTiesToEven_def Let_def floor_rat_numeral)

text \<open>Numeric text in a row, and \<open>null\<close> for a price.\<close>

lemma BigInt_text_100: "BigInt (Txt ''100'') = Inr 100"
  by code_simp

lemma ToNumber_text_100: "ToNumber (Txt ''100'') = Fin 100"
  by code_simp

lemma ToNumber_text_25: "ToNumber (Txt ''25'') = Fin 25"
  by code_simp

text \<open>
  Claim C9, as the code has it. A row is merged when \<open>BigInt\<close> of its \<open>VOLUME\<close> does not
  throw, and the record stored for it has that BigInt as its volume: the value of the cell,
  exactly. Its turnover is the product \<open>VOLUME * CLOSE\<close> of the two cells as Numbers (\<open>null\<close>
  being 0 and numeric text its number), that is the exact product of two doubles rounded to
  the nearest double, and not a product in the domain of the volume (a BigInt). The entry that
  \<open>computeHotStocks\<close> pushes for the record reports \<open>Math.trunc(turnover / 1e6)\<close>, a division
  of Numbers again. When \<open>VOLUME\<close> and \<open>CLOSE\<close> are non-negative integers with a product
  below \<open>2^53\<close>, the turnover is their exact product and the reported turnover is
  \<open>VOLUME * CLOSE\<close> divided by \<open>10^6\<close>, truncated.
\<close>

theorem turnover_in_millions:
  assumes "BigInt (row_get r idxVol) = Inr V"
  shows "\<exists>t. mergeRows (r # rs) idxName idxVol idxClose imoexDay =
               mergeRows rs idxName idxVol idxClose
                 (AList.update (row_get r idxName) \<lparr>volume = V, turnover = t\<rparr> imoexDay) \<and>
             t = js_mul (ToNumber (row_get r idxVol)) (ToNumber (row_get r idxClose)) \<and>
             (\<forall>x. row_get r idxVol = Num x \<longrightarrow> x = Fin (of_int V)) \<and>
             (\<forall>x y. ToNumber (row_get r idxVol) = Fin x \<and> ToNumber (row_get r idxClose) = Fin y \<longrightarrow>
                t = toDouble (x * y)) \<and>
             (\<forall>avgs a date hs.
                map_of avgs (row_get r idxName) = Some a \<and> average a \<noteq> 0 \<longrightarrow>
                (\<exists>ratio.
                   hotStockStep avgs date (row_get r idxName, \<lparr>volume = V, turnover = t\<rparr>) hs =
                     Inr (AList.update date
                            ((case map_of hs date of None \<Rightarrow> [] | Some arr \<Rightarrow> arr) @
                             [\<lparr>secId = row_get r idxName, ratio = ratio,
                               turnoverMln = Math_trunc (js_div_lit t 1000000)\<rparr>]) hs))) \<and>
             (\<forall>C. ToNumber (row_get r idxVol) = Fin (of_int V) \<and>
                  ToNumber (row_get r idxClose) = Fin (of_int C) \<and>
                  0 \<le> V \<and> 0 \<le> C \<and> V * C < 2 ^ 53 \<longrightarrow>
                t = Fin (of_int (V * C)) \<and>
                Math_trunc (js_div_lit t 1000000) = Fin (of_int (V * C div 1000000)))"
proof -
  define t where "t = js_mul (ToNumber (row_get r idxVol)) (ToNumber (row_get r idxClose))"
  have m: "mergeRows (r # rs) idxName idxVol idxClose imoexDay =
               mergeRows rs idxName idxVol idxClose
                 (AList.update (row_get r idxName) \<lparr>volume = V, turnover = t\<rparr> imoexDay)"
    using assms by (simp add: t_def)
  have n: "x = Fin (of_int V)" if "row_get r idxVol = Num x" for x
  proof (cases x)
    case (Fin q)
    then show ?thesis using assms that by (simp split: if_splits)
  qed (use assms that in simp_all)
  have p: "t = toDouble (x * y)"
    if "ToNumber (row_get r idxVol) = Fin x \<and> ToNumber (row_get r idxClose) = Fin y" for x y
    using that by (simp add: t_def)
  have h: "\<exists>ratio.
             hotStockStep avgs date (row_get r idxName, \<lparr>volume = V, turnover = t\<rparr>) hs =
               Inr (AList.update date
                      ((case map_of hs date of None \<Rightarrow> [] | Some arr \<Rightarrow> arr) @
                       [\<lparr>secId = row_get r idxName, ratio = ratio,
                         turnoverMln = Math_trunc (js_div_lit t 1000000)\<rparr>]) hs)"
    if "map_of avgs (row_get r idxName) = Some a \<and> average a \<noteq> 0" for avgs a date hs
    using hotStockStep_pushes[of avgs "row_get r idxName" a "\<lparr>volume = V, turnover = t\<rparr>" date hs] that
    by auto
  have e: "t = Fin (of_int (V * C)) \<and>
           Math_trunc (js_div_lit t 1000000) = Fin (of_int (V * C div 1000000))"
    if c: "ToNumber (row_get r idxVol) = Fin (of_int V) \<and>
           ToNumber (row_get r idxClose) = Fin (of_int C) \<and>
           0 \<le> V \<and> 0 \<le> C \<and> V * C < 2 ^ 53" for C
  proof -
    have "0 \<le> V * C" using c by simp
    moreover have "t = Fin (of_int (V * C))"
      using js_mul_int_exact[of V C] c by (simp add: t_def)
    ultimately show ?thesis using trunc_div_million[of "V * C"] c by simp
  qed
  show ?thesis
    using m n p h e t_def by blast
qed

text \<open>
  A row with numeric text in both cells is merged with the volume 100 and the turnover 2500,
  reported as 0 millions; a row with \<open>null\<close> for its price is merged with the turnover 0.
\<close>

theorem turnover_in_millions_witness:
  "BigInt (row_get [Txt ''AAA'', Txt ''100'', Txt ''25''] 1) = Inr 100 \<and>
   (\<exists>t. mergeRows [[Txt ''AAA'', Txt ''100'', Txt ''25'']] 0 1 2 [] =
          ([(Txt ''AAA'', \<lparr>volume = 100, turnover = t\<rparr>)], None) \<and>
        t = Fin 2500 \<and> Math_trunc (js_div_lit t 1000000) = Fin 0) \<and>
   mergeRows [[Txt ''BBB'', Num (Fin 100), Null]] 0 1 2 [] =
     ([(Txt ''BBB'', \<lparr>volume = 100, turnover = Fin 0\<rparr>)], None)"
proof -
  have z: "mergeRows [[Txt ''BBB'', Num (Fin 100), Null]] 0 1 2 [] =
     ([(Txt ''BBB'', \<lparr>volume = 100, turnover = Fin 0\<rparr>)], None)"
    by (simp add: row_get_def toDouble_def)
  have v: "row_get [Txt ''AAA'', Txt ''100'', Txt ''25''] 1 = Txt ''100''"
    and c: "row_get [Txt ''AAA'', Txt ''100'', Txt ''25''] 2 = Txt ''25''"
    and k: "row_get [Txt ''AAA'', Txt ''100'', Txt ''25''] 0 = Txt ''AAA''"
    by (simp_all add: row_get_def)
  have b: "BigInt (row_get [Txt ''AAA'', Txt ''100'', Txt ''25''] 1) = Inr 100"
    unfolding v by (rule BigInt_text_100)
  from turnover_in_millions[OF b, of "[]" 0 2 "[]"]
  obtain t where t: "mergeRows [[Txt ''AAA'', Txt ''100'', Txt ''25'']] 0 1 2 [] =
               mergeRows [] 0 1 2
                 (AList.update (row_get [Txt ''AAA'', Txt ''100'', Txt ''25''] 0)
                    \<lparr>volume = 100, turnover = t\<rparr> [])"
    and e: "\<forall>C. ToNumber (row_get [Txt ''AAA'', Txt ''100'', Txt ''25''] 1) = Fin (of_int 100) \<and>
                ToNumber (row_get [Txt ''AAA'', Txt ''100'', Txt ''25''] 2) = Fin (of_int C) \<and>
                (0::int) \<le> 100 \<and> 0 \<le> C \<and> 100 * C < 2 ^ 53 \<longrightarrow>
                t = Fin (of_int (100 * C)) \<and>
                Math_trunc (js_div_lit t 1000000) = Fin (of_int (100 * C div 1000000))"
    by (elim exE conjE)
  have tn: "ToNumber (row_get [Txt ''AAA'', Txt ''100'', Txt ''25''] 1) = Fin (of_int 100)"
    unfolding v using ToNumber_text_100 by simp
  have tc: "ToNumber (row_get [Txt ''AAA'', Txt ''100'', Txt ''25''] 2) = Fin (of_int 25)"
    unfolding c using ToNumber_text_25 by simp
  have e1: "t = Fin (of_int (100 * 25)) \<and>
            Math_trunc (js_div_lit t 1000000) = Fin (of_int (100 * 25 div 1000000))"
    by (rule e[rule_format]) (intro conjI tn tc; simp)
  have n1: "(of_int (100 * 25) :: rat) = 2500" by simp
  have n2: "(of_int (100 * 25 div 1000000) :: rat) = 0" by simp
  have w: "t = Fin 2500 \<and> Math_trunc (js_div_lit t 1000000) = Fin 0"
    using e1 unfolding n1 n2 .
  have "mergeRows [[Txt ''AAA'', Txt ''100'', Txt ''25'']] 0 1 2 [] =
          ([(Txt ''AAA'', \<lparr>volume = 100, turnover = t\<rparr>)], None)"
    using t k by simp
  then show ?thesis using w b z by blast
qed

text \<open>
  Beyond \<open>2^53\<close> the reported turnover need not be the truncated exact quotient (claim C9 as
  first stated): with a volume of 99999999 and a closing price of 100000001 the product
  9999999999999999 is not a double, the stored turnover is \<open>10^16\<close>, and the entry reports
  10000000000 millions where the exact product has 9999999999.
\<close>

theorem turnover_in_millions_not_exact:
  "mergeRows [[Txt ''X'', Num (Fin 99999999), Num (Fin 100000001)]] 0 1 2 [] =
     ([(Txt ''X'', \<lparr>volume = 99999999, turnover = Fin 10000000000000000\<rparr>)], None) \<and>
   computeAverageVolume
     [(''2026-10-30'', [(Txt ''X'', \<lparr>volume = 99999999, turnover = Fin 10000000000000000\<rparr>)])] =
     Inr [(Txt ''X'', \<lparr>totalVolume = 99999999, count = 1, average = 99999999\<rparr>)] \<and>
   computeHotStocks
     [(''2026-10-30'', [(Txt ''X'', \<lparr>volume = 99999999, turnover = Fin 10000000000000000\<rparr>)])]
     [(Txt ''X'', \<lparr>totalVolume = 99999999, count = 1, average = 99999999\<rparr>)] =
     Inr [(''2026-10-30'', [\<lparr>secId = Txt ''X'', ratio = Fin 1, turnoverMln = Fin 10000000000\<rparr>])] \<and>
   (99999999 * 100000001 :: int) = 9999999999999999 \<and>
   (99999999 * 100000001 div 1000000 :: int) = 9999999999 \<and>
   Fin 10000000000 \<noteq> Fin (of_int (99999999 * 100000001 div 1000000))"
proof -
  have m: "mergeRows [[Txt ''X'', Num (Fin 99999999), Num (Fin 100000001)]] 0 1 2 [] =
     ([(Txt ''X'', \<lparr>volume = 99999999, turnover = Fin 10000000000000000\<rparr>)], None)"
    by (simp add: row_get_def toDouble_tie)
  have a: "computeAverageVolume
     [(''2026-10-30'', [(Txt ''X'', \<lparr>volume = 99999999, turnover = Fin 10000000000000000\<rparr>)])] =
     Inr [(Txt ''X'', \<lparr>totalVolume = 99999999, count = 1, average = 99999999\<rparr>)]"
    by (simp add: computeAverageVolume_def tallyStock_eq bigint_div_def)
  have c: "computeHotStocks
     [(''2026-10-30'', [(Txt ''X'', \<lparr>volume = 99999999, turnover = Fin 10000000000000000\<rparr>)])]
     [(Txt ''X'', \<lparr>totalVolume = 99999999, count = 1, average = 99999999\<rparr>)] =
     Inr [(''2026-10-30'', [\<lparr>secId = Txt ''X'', ratio = Fin 1, turnoverMln = Fin 10000000000\<rparr>])]"
    by (simp add: computeHotStocks_def hotStockStep_def divideBigInt_same toDouble_numeral_exact)
  have n: "(99999999 * 100000001 :: int) = 9999999999999999"
    "(99999999 * 100000001 div 1000000 :: int) = 9999999999"
    "Fin 10000000000 \<noteq> Fin (of_int (99999999 * 100000001 div 1000000))"
    by simp_all
  show ?thesis
    using m a c n by (intro conjI)
qed

subsection \<open>\<open>loadData\<close>: the pages of a day\<close>

lemma loadDay_done: "p < 0 \<Longrightarrow> loadDay srv date (Some p) imoexDay n = Some (Some imoexDay, n)"
  by (subst loadDay.simps) simp

lemma loadDay_step:
  "0 \<le> p \<Longrightarrow>
   loadDay srv date (Some p) imoexDay n =
     (case loadPage srv n date p imoexDay of
        (Return_undefined, n') \<Rightarrow> Some (None, n')
      | (Continue page' imoexDay', n') \<Rightarrow> loadDay srv date page' imoexDay' n')"
  by (subst loadDay.simps) simp



subsection \<open>\<open>loadData\<close>: failures\<close>

lemma loadDay_returns_only_if:
  assumes "loadDay srv date page imoexDay n = Some y"
  shows "\<not> ((\<forall>n d s. \<exists>e. srv n d s = Inl e) \<and> (\<exists>p. page = Some p \<and> 0 \<le> p))"
proof (rule loadDay.raw_induct[where P = "\<lambda>srv date page imoexDay n y.
          \<not> ((\<forall>n d s. \<exists>e. srv n d s = Inl e) \<and> (\<exists>p. page = Some p \<and> 0 \<le> p))", OF _ assms])
  fix f :: "server \<Rightarrow> string \<Rightarrow> int option \<Rightarrow> daymap \<Rightarrow> nat \<Rightarrow> (daymap option \<times> nat) option"
    and srv date page imoexDay n y
  assume IH: "\<And>srv date page imoexDay n y. f srv date page imoexDay n = Some y \<Longrightarrow>
          \<not> ((\<forall>n d s. \<exists>e. srv n d s = Inl e) \<and> (\<exists>p. page = Some p \<and> 0 \<le> p))"
    and eq: "(case page of
               None \<Rightarrow> Some (Some imoexDay, n)
             | Some p \<Rightarrow>
                 if 0 \<le> p then
                   (case loadPage srv n date p imoexDay of
                      (Return_undefined, n') \<Rightarrow> Some (None, n')
                    | (Continue page' imoexDay', n') \<Rightarrow> f srv date page' imoexDay' n')
                 else Some (Some imoexDay, n)) = Some y"
  show "\<not> ((\<forall>n d s. \<exists>e. srv n d s = Inl e) \<and> (\<exists>p. page = Some p \<and> 0 \<le> p))"
  proof
    assume a: "(\<forall>n d s. \<exists>e. srv n d s = Inl e) \<and> (\<exists>p. page = Some p \<and> 0 \<le> p)"
    then obtain p where p: "page = Some p" "0 \<le> p" by blast
    from a obtain e where "srv n date p = Inl e" by blast
    then have "loadPage srv n date p imoexDay = (Continue (Some p) imoexDay, Suc n)"
      by (simp add: loadPage_def fetchMoexData_def)
    then have "f srv date (Some p) imoexDay (Suc n) = Some y"
      using eq p by simp
    from IH[OF this] a p show False by blast
  qed
qed

lemma loadDay_unreachable: "0 \<le> p \<Longrightarrow> loadDay unreachable date (Some p) imoexDay n = None"
proof (rule ccontr)
  assume p: "0 \<le> p" and "loadDay unreachable date (Some p) imoexDay n \<noteq> None"
  then obtain y where "loadDay unreachable date (Some p) imoexDay n = Some y" by blast
  from loadDay_returns_only_if[OF this] p show False by (simp add: unreachable_def)
qed

text \<open>
  Called at the start of Monday 2 November 2026 on UTC with \<open>daysBack = 0\<close>, \<open>loadData\<close> loads
  the one day Friday 30 October.
\<close>

lemma workDaysNext_monday:
  "workDaysNext utc 0 0 (Some 1793577600000) = Some (Some (''2026-10-30'', 1, Some 1793318400000))"
proof -
  have s1: "setDate utc (Some 1793577600000)
              (map_option (\<lambda>d. d - 1) (getDate utc (Some 1793577600000))) = Some 1793491200000"
    by (simp add: setDate_day_before LocalTime_def UTC_def utc_def Day_def TimeWithinDay_def
          MakeDate_def msPerDay_def TimeClip_def)
  have d1: "getDay utc (Some 1793491200000) = Some 0"
    by (simp add: getDay_def weekDay_def LocalTime_def utc_def Day_def msPerDay_def)
  have s2: "setDate utc (Some 1793491200000)
              (map_option (\<lambda>d. d - 1) (getDate utc (Some 1793491200000))) = Some 1793404800000"
    by (simp add: setDate_day_before LocalTime_def UTC_def utc_def Day_def TimeWithinDay_def
          MakeDate_def msPerDay_def TimeClip_def)
  have d2: "getDay utc (Some 1793404800000) = Some 6"
    by (simp add: getDay_def weekDay_def LocalTime_def utc_def Day_def msPerDay_def)
  have s3: "setDate utc (Some 1793404800000)
              (map_option (\<lambda>d. d - 1) (getDate utc (Some 1793404800000))) = Some 1793318400000"
    by (simp add: setDate_day_before LocalTime_def UTC_def utc_def Day_def TimeWithinDay_def
          MakeDate_def msPerDay_def TimeClip_def)
  have d3: "getDay utc (Some 1793318400000) = Some 5"
    by (simp add: getDay_def weekDay_def LocalTime_def utc_def Day_def msPerDay_def)
  have i: "isoDate 20756 = ''2026-10-30''" by code_simp
  have f: "formatDate utc (Some 1793318400000) = ''2026-10-30''"
    by (simp add: formatDate_valid LocalTime_def utc_def Day_def msPerDay_def i)
  have "workDaysNext utc 0 0 (Some 1793577600000) = workDaysNext utc 0 0 (Some 1793491200000)"
    by (rule workDaysNext_weekend[OF _ s1]) (simp_all add: d1)
  also have "\<dots> = workDaysNext utc 0 0 (Some 1793404800000)"
    by (rule workDaysNext_weekend[OF _ s2]) (simp_all add: d2)
  also have "\<dots> = Some (Some (''2026-10-30'', 1, Some 1793318400000))"
    using workDaysNext_weekday[of 0 0 utc, OF _ s3] by (simp add: d3 f)
  finally show ?thesis .
qed

lemma loadDates_done:
  "daysBack < i \<Longrightarrow> loadDates z srv i daysBack current imoexData n = Some (Some imoexData, n)"
  by (subst loadDates.simps) (simp add: workDaysNext_done)

lemma loadData_monday:
  "loadData utc srv 0 1793577600000 n =
     (case loadDay srv ''2026-10-30'' (Some 0) [] n of
        None \<Rightarrow> None
      | Some (None, n') \<Rightarrow> Some (None, n')
      | Some (Some imoexDay, n') \<Rightarrow> Some (Some [(''2026-10-30'', imoexDay)], n'))"
  unfolding loadData_def
  by (subst loadDates.simps) (simp add: workDaysNext_monday loadDates_done split: option.splits)

text \<open>
  Claim C2 says that a failed fetch, like a missing column, ends the load at once: no retry,
  no partial result, nothing usable returned. The code does so for a missing column only
  (\<open>noClose\<close>: \<open>loadData\<close> returns \<open>undefined\<close> after one request). A failed fetch is caught
  inside the \<open>while\<close> loop, which goes round again with the same offset: on the endpoint that
  fails once (\<open>flaky\<close>) the request is repeated and \<open>loadData\<close> returns the whole dataset, after
  2 requests; on the endpoint that always fails (\<open>unreachable\<close>) \<open>loadData\<close> never returns.
\<close>

theorem loadData_on_errors:
  "loadData utc flaky 0 1793577600000 0 =
     Some (Some [(''2026-10-30'', [(Txt ''AAA'', \<lparr>volume = 100, turnover = Fin 2500\<rparr>)])], 2) \<and>
   loadData utc unreachable 0 1793577600000 0 = None \<and>
   loadData utc noClose 0 1793577600000 0 = Some (None, 1)"
proof (intro conjI)
  show "loadData utc flaky 0 1793577600000 0 =
     Some (Some [(''2026-10-30'', [(Txt ''AAA'', \<lparr>volume = 100, turnover = Fin 2500\<rparr>)])], 2)"
    by (simp add: loadData_monday loadDay_step loadDay_done loadPage_def fetchMoexData_def
          flaky_def onePage_def pageOf_def quote_def row_get_def cursor_get_def
          toDouble_numeral_exact Let_def eval_nat_numeral)
  show "loadData utc unreachable 0 1793577600000 0 = None"
    by (simp add: loadData_monday loadDay_unreachable)
  show "loadData utc noClose 0 1793577600000 0 = Some (None, 1)"
    by (simp add: loadData_monday loadDay_step loadPage_def fetchMoexData_def noClose_def
          Let_def)
qed

subsection \<open>\<open>getHotStocks\<close>: the cache\<close>

text \<open>
  Claim C8. When a call of \<open>getHotStocks\<close> has returned a result, the next call with the same
  \<open>daysBack\<close> on the same local calendar day (at any instant \<open>now'\<close> that \<open>formatDate\<close>
  prints as it prints \<open>now\<close>) returns the same result and leaves the state as it is, the
  count of requests included, whatever the endpoint would answer: it sends no request. A call
  that finds its key in the cache changes nothing; a call that does not and returns a result
  leaves the cache with that one entry and no other; a call that fails leaves the cache as it
  was. So a cache of at most one entry stays one.
\<close>

theorem getHotStocks_cache:
  assumes "getHotStocks z srv now daysBack w = Some (res, w')"
  shows "(\<forall>out. res = Inr out \<longrightarrow>
            (\<forall>srv' now'. formatDate z (Some now') = formatDate z (Some now) \<longrightarrow>
               getHotStocks z srv' now' daysBack w' = Some (Inr out, w'))) \<and>
         (map_of (cacheImoexData w) (cacheKeyOf z daysBack now) = None \<longrightarrow>
            (\<forall>out. res = Inr out \<longrightarrow> cacheImoexData w' = [(cacheKeyOf z daysBack now, out)]) \<and>
            (\<forall>e. res = Inl e \<longrightarrow> cacheImoexData w' = cacheImoexData w)) \<and>
         (map_of (cacheImoexData w) (cacheKeyOf z daysBack now) \<noteq> None \<longrightarrow> w' = w) \<and>
         (length (cacheImoexData w) \<le> 1 \<longrightarrow> length (cacheImoexData w') \<le> 1)"
proof -
  define key where "key = cacheKeyOf z daysBack now"
  have same: "cacheKeyOf z daysBack now' = key"
    if "formatDate z (Some now') = formatDate z (Some now)" for now'
    using that by (simp add: key_def cacheKeyOf_def)
  have hit: "getHotStocks z srv' now' daysBack w' = Some (Inr out, w')"
    if "map_of (cacheImoexData w') key = Some out"
      and "formatDate z (Some now') = formatDate z (Some now)" for srv' now' out
    using that(1) by (simp add: getHotStocks_def same[OF that(2)] Let_def)
  show ?thesis
  proof (cases "map_of (cacheImoexData w) key")
    case (Some hot)
    then have "res = Inr hot" "w' = w"
      using assms by (simp_all add: getHotStocks_def key_def[symmetric] Let_def)
    then show ?thesis
      using Some hit unfolding key_def[symmetric] by auto
  next
    case None
    have miss: "(case loadData z srv daysBack now (requests w) of
              None \<Rightarrow> None
            | Some (None, n') \<Rightarrow> Some (Inl TypeError, w\<lparr>requests := n'\<rparr>)
            | Some (Some moexData, n') \<Rightarrow>
                (case computeAverageVolume moexData of
                   Inl e \<Rightarrow> Some (Inl e, w\<lparr>requests := n'\<rparr>)
                 | Inr averageVolume \<Rightarrow>
                     (case computeHotStocks moexData averageVolume of
                        Inl e \<Rightarrow> Some (Inl e, w\<lparr>requests := n'\<rparr>)
                      | Inr hotStocks \<Rightarrow>
                          Some (Inr hotStocks,
                                \<lparr>cacheImoexData = AList.update key hotStocks [],
                                 requests = n'\<rparr>)))) = Some (res, w')"
      using assms None by (simp add: getHotStocks_def key_def[symmetric] Let_def)
    have "(\<exists>e. res = Inl e \<and> cacheImoexData w' = cacheImoexData w) \<or>
          (\<exists>out. res = Inr out \<and> cacheImoexData w' = [(key, out)])"
    proof (cases "loadData z srv daysBack now (requests w)")
      case None
      then show ?thesis using miss by simp
    next
      case (Some pr)
      note ld = this
      obtain md n' where pr: "pr = (md, n')" by (cases pr)
      show ?thesis
      proof (cases md)
        case None
        then have "res = Inl TypeError \<and> w' = w\<lparr>requests := n'\<rparr>"
          using miss ld pr by simp
        then show ?thesis by simp
      next
        case (Some moexData)
        note md = this
        show ?thesis
        proof (cases "computeAverageVolume moexData")
          case (Inl e)
          then have "res = Inl e \<and> w' = w\<lparr>requests := n'\<rparr>"
            using miss ld pr md by simp
          then show ?thesis by simp
        next
          case (Inr averageVolume)
          note av = this
          show ?thesis
          proof (cases "computeHotStocks moexData averageVolume")
            case (Inl e)
            then have "res = Inl e \<and> w' = w\<lparr>requests := n'\<rparr>"
              using miss ld pr md av by simp
            then show ?thesis by simp
          next
            case (Inr hotStocks)
            then have "res = Inr hotStocks \<and>
                w' = \<lparr>cacheImoexData = AList.update key hotStocks [], requests = n'\<rparr>"
              using miss ld pr md av by simp
            then show ?thesis by simp
          qed
        qed
      qed
    qed
    then show ?thesis
      using None hit unfolding key_def[symmetric] by auto
  qed
qed

lemma divideBigInt_self: "0 < a \<Longrightarrow> divideBigInt a a = Inr (Fin 1)"
proof -
  assume a: "0 < a"
  have "(a * 100) sdiv a = (a * 100) div a" using a by (simp add: sdiv_nonneg)
  then have q: "bigint_div (a * 100) a = Inr 100"
    using a by (simp add: bigint_div_def)
  have b: "Number_of_BigInt 100 = Fin 100"
    by (simp add: Number_of_BigInt_def toDouble_numeral_exact)
  have c: "js_div_lit (Fin 100) 100 = Fin 1"
    by (simp add: toDouble_one)
  have d: "js_mul (Fin 1) (Fin 10) = Fin 10"
    by (simp add: toDouble_numeral_exact)
  have e: "Math_round (Fin 10) = Fin 10"
    by (simp add: floor_rat_numeral)
  have f: "js_div_lit (Fin 10) 10 = Fin 1"
    by (simp add: toDouble_one)
  show ?thesis
    by (simp only: divideBigInt_def q b c d e f Let_def sum.case)
qed

lemma onePage_first_call:
  "getHotStocks utc onePage 1793577600000 0 initialWorld =
     Some (Inr [(''2026-10-30'', [\<lparr>secId = Txt ''AAA'', ratio = Fin 1, turnoverMln = Fin 0\<rparr>])],
           \<lparr>cacheImoexData =
              [(cacheKeyOf utc 0 1793577600000,
                [(''2026-10-30'', [\<lparr>secId = Txt ''AAA'', ratio = Fin 1, turnoverMln = Fin 0\<rparr>])])],
            requests = 1\<rparr>)"
proof -
  have l: "loadData utc onePage 0 1793577600000 0 =
      Some (Some [(''2026-10-30'', [(Txt ''AAA'', \<lparr>volume = 100, turnover = Fin 2500\<rparr>)])], 1)"
    by (simp add: loadData_monday loadDay_step loadDay_done loadPage_def fetchMoexData_def
          onePage_def pageOf_def quote_def row_get_def cursor_get_def
          toDouble_numeral_exact Let_def eval_nat_numeral)
  have a: "computeAverageVolume [(''2026-10-30'', [(Txt ''AAA'', \<lparr>volume = 100, turnover = Fin 2500\<rparr>)])] =
      Inr [(Txt ''AAA'', \<lparr>totalVolume = 100, count = Suc 0, average = 100\<rparr>)]"
    by (simp add: computeAverageVolume_def tallyStock_eq bigint_div_def)
  have t: "Math_trunc (js_div_lit (Fin 2500) 1000000) = Fin 0"
    using trunc_div_million[of 2500] by simp
  have h: "computeHotStocks [(''2026-10-30'', [(Txt ''AAA'', \<lparr>volume = 100, turnover = Fin 2500\<rparr>)])]
        [(Txt ''AAA'', \<lparr>totalVolume = 100, count = Suc 0, average = 100\<rparr>)] =
      Inr [(''2026-10-30'', [\<lparr>secId = Txt ''AAA'', ratio = Fin 1, turnoverMln = Fin 0\<rparr>])]"
    using t by (simp add: computeHotStocks_def hotStockStep_def divideBigInt_self
          del: js_div_lit.simps)
  show ?thesis
    by (simp add: getHotStocks_def initialWorld_def l a h Let_def)
qed

text \<open>
  The first call at the start of Monday 2 November 2026 on UTC sends one request; a call nine
  hours later, with the endpoint out of reach, returns the same object and sends none.
\<close>

theorem getHotStocks_cache_witness:
  "getHotStocks utc onePage 1793577600000 0 initialWorld =
     Some (Inr [(''2026-10-30'', [\<lparr>secId = Txt ''AAA'', ratio = Fin 1, turnoverMln = Fin 0\<rparr>])],
           \<lparr>cacheImoexData =
              [(cacheKeyOf utc 0 1793577600000,
                [(''2026-10-30'', [\<lparr>secId = Txt ''AAA'', ratio = Fin 1, turnoverMln = Fin 0\<rparr>])])],
            requests = 1\<rparr>) \<and>
   formatDate utc (Some 1793610000000) = formatDate utc (Some 1793577600000) \<and>
   getHotStocks utc unreachable 1793610000000 0
     \<lparr>cacheImoexData =
        [(cacheKeyOf utc 0 1793577600000,
          [(''2026-10-30'', [\<lparr>secId = Txt ''AAA'', ratio = Fin 1, turnoverMln = Fin 0\<rparr>])])],
      requests = 1\<rparr> =
     Some (Inr [(''2026-10-30'', [\<lparr>secId = Txt ''AAA'', ratio = Fin 1, turnoverMln = Fin 0\<rparr>])],
           \<lparr>cacheImoexData =
              [(cacheKeyOf utc 0 1793577600000,
                [(''2026-10-30'', [\<lparr>secId = Txt ''AAA'', ratio = Fin 1, turnoverMln = Fin 0\<rparr>])])],
            requests = 1\<rparr>)"
proof -
  have f: "formatDate utc (Some 1793610000000) = formatDate utc (Some 1793577600000)"
    by (simp add: formatDate_valid LocalTime_def utc_def Day_def msPerDay_def)
  show ?thesis
    using getHotStocks_cache[OF onePage_first_call] onePage_first_call f by blast
qed

end
